theory Spec2Isabelle
  imports Main "HOL-Library.Sublist"
begin

section \<open>Text as the page sees it\<close>

text \<open>
  A JavaScript string is a sequence of UTF-16 code units. A code unit is modelled as a
  natural number (below 65536 in every string the engine builds), so that every
  character \<open>String.prototype.trim\<close> strips can be written down. \<open>js\<close> turns
  an ASCII literal of the source into such a string.
\<close>

type_synonym code_unit = nat
type_synonym jsstring = "code_unit list"

definition js :: "string \<Rightarrow> jsstring" where
  "js s = map of_char s"

definition newline :: code_unit where
  "newline = 10"

text \<open>The block separator of the wire format, \<open>"\n\n"\<close>.\<close>

definition block_sep :: jsstring where
  "block_sep = [newline, newline]"

text \<open>\<open>s.startsWith(p)\<close>.\<close>

definition startsWith :: "jsstring \<Rightarrow> jsstring \<Rightarrow> bool" where
  "startsWith s p = prefix p s"

text \<open>\<open>s.slice(n)\<close> for a non-negative \<open>n\<close>.\<close>

definition slice_from :: "jsstring \<Rightarrow> nat \<Rightarrow> jsstring" where
  "slice_from s n = drop n s"

text \<open>
  The code units that \<open>trim\<close> removes: ECMAScript's WhiteSpace (TAB, VT, FF, SP,
  NBSP, ZWNBSP and the category Zs) and LineTerminator (LF, CR, LS, PS).
\<close>

definition is_white :: "code_unit \<Rightarrow> bool" where
  "is_white c \<longleftrightarrow>
     c = 9 \<or> c = 10 \<or> c = 11 \<or> c = 12 \<or> c = 13 \<or> c = 32 \<or> c = 160 \<or> c = 5760 \<or>
     (8192 \<le> c \<and> c \<le> 8202) \<or> c = 8232 \<or> c = 8233 \<or> c = 8239 \<or> c = 8287 \<or>
     c = 12288 \<or> c = 65279"

definition trim :: "jsstring \<Rightarrow> jsstring" where
  "trim s = rev (dropWhile is_white (rev (dropWhile is_white s)))"

text \<open>
  \<open>s.split(sep)\<close> with a string separator: the pieces between the occurrences of
  \<open>sep\<close>, found from left to right without overlap. There is always at least one
  piece when \<open>sep\<close> is not empty (\<open>"".split("\n")\<close> is \<open>[""]\<close>); with the empty
  separator the string is cut into its code units.
\<close>

fun cons_first :: "'a \<Rightarrow> 'a list list \<Rightarrow> 'a list list" where
  "cons_first c [] = [[c]]"
| "cons_first c (p # ps) = (c # p) # ps"

function split :: "jsstring \<Rightarrow> jsstring \<Rightarrow> jsstring list" where
  "split sep s =
     (if sep = [] then map (\<lambda>c. [c]) s
      else if prefix sep s then [] # split sep (drop (length sep) s)
      else (case s of
              [] \<Rightarrow> [[]]
            | c # cs \<Rightarrow> cons_first c (split sep cs)))"
  by pat_completeness auto
termination
  by (relation "measure (\<lambda>(sep, s). length s)") (auto simp: prefix_def)

declare split.simps [simp del]

text \<open>A number inside a template literal, for a non-negative integer: its decimal digits.\<close>

function show_nat :: "nat \<Rightarrow> jsstring" where
  "show_nat n = (if n < 10 then [48 + n] else show_nat (n div 10) @ [48 + n mod 10])"
  by pat_completeness auto
termination
  by (relation "measure id") auto

declare show_nat.simps [simp del]

section \<open>Frame Decoder\<close>

text \<open>
  \<open>events.pop()\<close> removes the last element of the array and returns it;
  on the empty array it returns \<open>undefined\<close> and leaves the array empty.
\<close>

definition pop :: "'a list \<Rightarrow> 'a option \<times> 'a list" where
  "pop xs = (if xs = [] then (None, []) else (Some (last xs), butlast xs))"

text \<open>
  One turn of the read loop up to the \<open>for\<close>: the chunk's text is appended to the
  buffer, the buffer is split on the separator, and the last piece goes back to the buffer
  (\<open>events.pop() || ""\<close>). The result is the array \<open>events\<close> that the \<open>for\<close>
  walks and the new buffer. The chunk is the text \<open>decoder.decode(value, {stream: true})\<close>
  returned for the bytes read; the streaming decoder is the platform's.
\<close>

definition decode_step :: "jsstring \<Rightarrow> jsstring \<Rightarrow> jsstring list \<times> jsstring" where
  "decode_step buffer chunk =
     (let buffer1 = buffer @ chunk;
          (popped, events) = pop (split block_sep buffer1);
          buffer2 = (case popped of None \<Rightarrow> [] | Some piece \<Rightarrow> if piece = [] then [] else piece)
      in (events, buffer2))"

text \<open>
  The \<open>while\<close> loop over the chunks the reader delivers, with the body of the
  \<open>for\<close> as a parameter: \<open>body\<close> takes the loop's state and one block.
  The loop returns the state and the buffer left when the reader reports \<open>done\<close>.
\<close>

fun read_loop :: "('s \<Rightarrow> jsstring \<Rightarrow> 's) \<Rightarrow> jsstring \<Rightarrow> 's \<Rightarrow> jsstring list \<Rightarrow> 's \<times> jsstring" where
  "read_loop body buffer st [] = (st, buffer)"
| "read_loop body buffer st (chunk # chunks) =
     (case decode_step buffer chunk of
        (events, buffer') \<Rightarrow> read_loop body buffer' (foldl body st events) chunks)"

text \<open>The Frame Decoder alone: the blocks handed to the \<open>for\<close>, in order, and the residue.\<close>

definition frame_decoder :: "jsstring list \<Rightarrow> jsstring list \<times> jsstring" where
  "frame_decoder chunks = read_loop (\<lambda>emitted block. emitted @ [block]) [] [] chunks"


section \<open>Values decoded from the wire\<close>

text \<open>
  \<open>JSON.parse\<close> returns a value of type \<open>any\<close>: nothing checks its shape before
  the handler reads \<open>data.content\<close>, \<open>data.status\<close>, \<open>data.message\<close>,
  \<open>data.userMessage\<close> and \<open>data.aiMessage\<close>, and the two messages of a \<open>done\<close>
  payload enter the conversation as they are. So the values are modelled as the engine has
  them, and a message in the conversation is such a value; the interface \<open>Message\<close>
  is what they are expected to be. Numbers stay abstract.
\<close>

typedecl jsnumber

datatype jsval =
    JUndefined
  | JNull
  | JBool bool
  | JNum jsnumber
  | JStr jsstring
  | JArr "jsval list"
  | JObj "(jsstring \<times> jsval) list"

text \<open>
  What the handler takes from the engine: \<open>JSON.parse\<close> (\<open>None\<close> when it throws
  a SyntaxError), the conversion of a value to a string that \<open>+\<close> applies to its right
  operand (\<open>None\<close> when it throws a TypeError), and whether a number is \<open>0\<close>.
\<close>

record platform =
  JSON_parse :: "jsstring \<Rightarrow> jsval option"
  ToString :: "jsval \<Rightarrow> jsstring option"
  is_zero :: "jsnumber \<Rightarrow> bool"

text \<open>
  \<open>v.name\<close>, for the property names the handler reads (\<open>id\<close>, \<open>content\<close>,
  \<open>status\<close>, \<open>message\<close>, \<open>userMessage\<close>, \<open>aiMessage\<close>; no prototype
  defines them). Reading a property of \<open>null\<close> or \<open>undefined\<close> throws a TypeError:
  \<open>None\<close>. Any other value answers, with \<open>undefined\<close> when it has no such field.
\<close>

definition get_prop :: "jsval \<Rightarrow> jsstring \<Rightarrow> jsval option" where
  "get_prop v name =
     (case v of
        JUndefined \<Rightarrow> None
      | JNull \<Rightarrow> None
      | JObj props \<Rightarrow> Some (case map_of props name of None \<Rightarrow> JUndefined | Some x \<Rightarrow> x)
      | _ \<Rightarrow> Some JUndefined)"

text \<open>The truth value of a value in \<open>&&\<close>, \<open>||\<close> and \<open>!\<close>.\<close>

definition truthy :: "platform \<Rightarrow> jsval \<Rightarrow> bool" where
  "truthy P v =
     (case v of
        JUndefined \<Rightarrow> False
      | JNull \<Rightarrow> False
      | JBool b \<Rightarrow> b
      | JNum n \<Rightarrow> \<not> is_zero P n
      | JStr s \<Rightarrow> s \<noteq> []
      | JArr _ \<Rightarrow> True
      | JObj _ \<Rightarrow> True)"

text \<open>\<open>prev + v\<close> where \<open>prev\<close> is a string.\<close>

definition plus_str :: "platform \<Rightarrow> jsstring \<Rightarrow> jsval \<Rightarrow> jsstring option" where
  "plus_str P prev v =
     (case v of
        JStr s \<Rightarrow> Some (prev @ s)
      | _ \<Rightarrow> map_option (\<lambda>s. prev @ s) (ToString P v))"

text \<open>\<open>xs.filter(f)\<close> where the callback may throw: the first throw ends the filter.\<close>

fun filter_throwing :: "('a \<Rightarrow> bool option) \<Rightarrow> 'a list \<Rightarrow> 'a list option" where
  "filter_throwing f [] = Some []"
| "filter_throwing f (x # xs) =
     (case f x of
        None \<Rightarrow> None
      | Some keep \<Rightarrow>
          (case filter_throwing f xs of
             None \<Rightarrow> None
           | Some ys \<Rightarrow> Some (if keep then x # ys else ys)))"

section \<open>The page's state\<close>

text \<open>
  \<open>ChatWithMessages\<close> is declared outside the file; the handler uses its \<open>id\<close>
  and its \<open>messages\<close>, and the record's extension carries the rest.
\<close>

record chat =
  ident :: jsstring
  messages :: "jsval list"

datatype AbortController = AbortController

record page =
  currentChatData :: "chat option"
  sendMessageError :: "jsstring option"
  isMessageSending :: bool
  isStreaming :: bool
  streamingMessage :: jsstring
  agentStatus :: jsval
  abortControllerRef :: "AbortController option"

text \<open>What the handler does to the outside: the request, the toast, the console.\<close>

datatype effect =
    Fetch jsstring jsstring jsstring
  | ToastError jsstring
  | ConsoleWarn

text \<open>
  A value that reaches the outer \<open>catch\<close>: an \<open>Error\<close> with its \<open>name\<close> and
  \<open>message\<close>, or something that is not an \<open>Error\<close>.
\<close>

datatype thrown = ErrorObject jsstring jsstring | NotAnError

text \<open>An exception raised inside the inner \<open>try\<close>.\<close>

datatype inner_exception = SyntaxError | TypeError | ThrownError jsstring

text \<open>
  The body of a response as the reader delivers it: the texts of the chunks, then either
  \<open>done\<close> (\<open>None\<close>) or a rejected \<open>read\<close>.
\<close>

record body_stream =
  stream_chunks :: "jsstring list"
  stream_end :: "thrown option"

record response =
  resp_ok :: bool
  resp_status :: nat
  resp_body :: "body_stream option"

text \<open>
  What surrounds one call of the handler: the constants of the page, the identity from
  \<open>useAuth\<close>, the clock, and what \<open>getToken\<close> and \<open>fetch\<close> answer.
\<close>

record world =
  API_BASE_URL :: jsstring
  projectId :: jsstring
  userId :: "jsstring option"
  date_now :: nat
  date_iso :: jsstring
  getToken :: "thrown + jsstring option"
  fetch :: "thrown + response"

section \<open>Conversation updates\<close>

definition optimisticUserMessage :: "world \<Rightarrow> chat \<Rightarrow> jsstring \<Rightarrow> jsstring \<Rightarrow> jsval" where
  "optimisticUserMessage w c uid content =
     JObj [(js ''id'', JStr (js ''temp-'' @ show_nat (date_now w))),
           (js ''chat_id'', JStr (ident c)),
           (js ''content'', JStr content),
           (js ''role'', JStr (js ''user'')),
           (js ''clerk_id'', JStr uid),
           (js ''created_at'', JStr (date_iso w)),
           (js ''citations'', JArr [])]"

text \<open>
  The three functions given to \<open>setCurrentChatData\<close>. React runs them when it renders;
  one that throws takes the page down, which is the result \<open>None\<close>.
\<close>

definition append_optimistic :: "jsval \<Rightarrow> chat option \<Rightarrow> chat option" where
  "append_optimistic m prev =
     (case prev of
        None \<Rightarrow> prev
      | Some c \<Rightarrow> Some (c\<lparr>messages := messages c @ [m]\<rparr>))"

definition differs_from_id :: "jsstring \<Rightarrow> jsval \<Rightarrow> bool option" where
  "differs_from_id optimistic_id m =
     (case get_prop m (js ''id'') of
        None \<Rightarrow> None
      | Some (JStr s) \<Rightarrow> Some (s \<noteq> optimistic_id)
      | Some _ \<Rightarrow> Some True)"

definition finalize :: "platform \<Rightarrow> jsstring \<Rightarrow> jsval \<Rightarrow> chat option \<Rightarrow> chat option option" where
  "finalize P optimistic_id data prev =
     (case prev of
        None \<Rightarrow> Some prev
      | Some c \<Rightarrow>
          (case get_prop data (js ''aiMessage'') of
             None \<Rightarrow> None
           | Some ai \<Rightarrow>
               if \<not> truthy P ai then Some prev
               else (case get_prop data (js ''userMessage'') of
                       None \<Rightarrow> None
                     | Some um \<Rightarrow>
                         if \<not> truthy P um then Some prev
                         else (case filter_throwing (differs_from_id optimistic_id) (messages c) of
                                 None \<Rightarrow> None
                               | Some kept \<Rightarrow> Some (Some (c\<lparr>messages := kept @ [um, ai]\<rparr>))))))"

definition not_temp :: "jsval \<Rightarrow> bool option" where
  "not_temp msg =
     (case get_prop msg (js ''id'') of
        Some (JStr s) \<Rightarrow> Some (\<not> startsWith s (js ''temp-''))
      | _ \<Rightarrow> None)"

definition rollback :: "chat option \<Rightarrow> chat option option" where
  "rollback prev =
     (case prev of
        None \<Rightarrow> Some prev
      | Some c \<Rightarrow>
          (case filter_throwing not_temp (messages c) of
             None \<Rightarrow> None
           | Some kept \<Rightarrow> Some (Some (c\<lparr>messages := kept\<rparr>))))"

text \<open>The function given to \<open>setStreamingMessage\<close> by a \<open>token\<close> event.\<close>

definition append_token :: "platform \<Rightarrow> jsval \<Rightarrow> jsstring \<Rightarrow> jsstring option" where
  "append_token P data prev =
     (case get_prop data (js ''content'') of
        None \<Rightarrow> None
      | Some v \<Rightarrow> plus_str P prev v)"

section \<open>Event Parser\<close>

text \<open>
  The loop over the lines of a block: a line that starts with \<open>event: \<close> sets
  \<open>eventType\<close>, a line that starts with \<open>data: \<close> sets \<open>dataStr\<close>.
  Both start empty.
\<close>

definition scan_line :: "jsstring \<times> jsstring \<Rightarrow> jsstring \<Rightarrow> jsstring \<times> jsstring" where
  "scan_line acc line =
     (case acc of
        (eventType, dataStr) \<Rightarrow>
          if startsWith line (js ''event: '') then (trim (slice_from line 7), dataStr)
          else if startsWith line (js ''data: '') then (eventType, slice_from line 6)
          else (eventType, dataStr))"

definition parse_block :: "jsstring \<Rightarrow> jsstring \<times> jsstring" where
  "parse_block eventBlock = foldl scan_line ([], []) (split [newline] eventBlock)"

text \<open>
  The body of the inner \<open>try\<close>. \<open>Some (Inl e)\<close>: the exception \<open>e\<close> is raised
  inside the \<open>try\<close>; \<open>Some (Inr st)\<close>: the body ends and the page is \<open>st\<close>;
  \<open>None\<close>: a function handed to a setter throws when React runs it.
\<close>

definition dispatch ::
  "platform \<Rightarrow> jsstring \<Rightarrow> page \<Rightarrow> jsstring \<Rightarrow> jsstring \<Rightarrow> (inner_exception + page) option" where
  "dispatch P optimistic_id st eventType dataStr =
     (case JSON_parse P dataStr of
        None \<Rightarrow> Some (Inl SyntaxError)
      | Some data \<Rightarrow>
          if eventType = js ''token'' then
            (case append_token P data (streamingMessage st) of
               None \<Rightarrow> None
             | Some text \<Rightarrow> Some (Inr (st\<lparr>streamingMessage := text\<rparr>)))
          else if eventType = js ''status'' then
            (case get_prop data (js ''status'') of
               None \<Rightarrow> Some (Inl TypeError)
             | Some v \<Rightarrow> Some (Inr (st\<lparr>agentStatus := v\<rparr>)))
          else if eventType = js ''error'' then
            (case get_prop data (js ''message'') of
               None \<Rightarrow> Some (Inl TypeError)
             | Some m \<Rightarrow>
                 if truthy P m then
                   (case plus_str P [] m of
                      None \<Rightarrow> Some (Inl TypeError)
                    | Some text \<Rightarrow> Some (Inl (ThrownError text)))
                 else Some (Inl (ThrownError (js ''Unknown error''))))
          else if eventType = js ''done'' then
            (case finalize P optimistic_id data (currentChatData st) of
               None \<Rightarrow> None
             | Some chat' \<Rightarrow> Some (Inr (st\<lparr>currentChatData := chat'\<rparr>)))
          else Some (Inr st))"

text \<open>
  The body of the \<open>for\<close>: blank blocks and blocks without an event type or a payload
  are passed over; whatever the \<open>try\<close> raises is caught and logged. The loop's state
  is the page and the effects so far, or \<open>None\<close> once the page is down.
\<close>

definition process_block ::
  "platform \<Rightarrow> jsstring \<Rightarrow> (page \<times> effect list) option \<Rightarrow> jsstring \<Rightarrow> (page \<times> effect list) option" where
  "process_block P optimistic_id acc eventBlock =
     (case acc of
        None \<Rightarrow> None
      | Some (st, log) \<Rightarrow>
          if trim eventBlock = [] then Some (st, log)
          else
            (case parse_block eventBlock of
               (eventType, dataStr) \<Rightarrow>
                 if eventType = [] \<or> dataStr = [] then Some (st, log)
                 else
                   (case dispatch P optimistic_id st eventType dataStr of
                      None \<Rightarrow> None
                    | Some (Inl e) \<Rightarrow> Some (st, log @ [ConsoleWarn])
                    | Some (Inr st') \<Rightarrow> Some (st', log))))"

section \<open>Stream Session\<close>

definition request_url :: "world \<Rightarrow> chat \<Rightarrow> jsstring" where
  "request_url w c =
     API_BASE_URL w @ js ''/api/chat/'' @ projectId w @ js ''/chats/'' @ ident c
       @ js ''/messages/stream''"

definition authorization :: "jsstring option \<Rightarrow> jsstring" where
  "authorization token = js ''Bearer '' @ (case token of None \<Rightarrow> js ''null'' | Some t \<Rightarrow> t)"

text \<open>
  The outer \<open>try\<close> block. The result is the page, the effects, and how the block ends:
  \<open>None\<close> when it runs to its end, \<open>Some e\<close> when \<open>e\<close> is thrown to the
  \<open>catch\<close>.
\<close>

definition try_block ::
  "platform \<Rightarrow> world \<Rightarrow> chat \<Rightarrow> jsstring \<Rightarrow> jsstring \<Rightarrow> page
     \<Rightarrow> (page \<times> effect list \<times> thrown option) option" where
  "try_block P w c uid content st =
     (let st1 = st\<lparr>sendMessageError := None, isMessageSending := True, isStreaming := True,
                   streamingMessage := [], agentStatus := JStr [],
                   abortControllerRef := Some AbortController\<rparr>;
          optimistic = optimisticUserMessage w c uid content;
          optimistic_id = js ''temp-'' @ show_nat (date_now w);
          st2 = st1\<lparr>currentChatData := append_optimistic optimistic (currentChatData st1)\<rparr>
      in case getToken w of
           Inl e \<Rightarrow> Some (st2, [], Some e)
         | Inr token \<Rightarrow>
             (let log = [Fetch (request_url w c) (authorization token) content]
              in case fetch w of
                   Inl e \<Rightarrow> Some (st2, log, Some e)
                 | Inr resp \<Rightarrow>
                     if \<not> resp_ok resp then
                       Some (st2, log,
                         Some (ErrorObject (js ''Error'')
                                 (js ''HTTP error! status: '' @ show_nat (resp_status resp))))
                     else
                       (case resp_body resp of
                          None \<Rightarrow>
                            Some (st2, log, Some (ErrorObject (js ''Error'') (js ''No response body'')))
                        | Some stream \<Rightarrow>
                            (case read_loop (process_block P optimistic_id) [] (Some (st2, log))
                                    (stream_chunks stream) of
                               (None, buffer) \<Rightarrow> None
                             | (Some (st3, log3), buffer) \<Rightarrow> Some (st3, log3, stream_end stream)))))"

definition is_abort :: "thrown \<Rightarrow> bool" where
  "is_abort err = (case err of ErrorObject name message \<Rightarrow> name = js ''AbortError'' | NotAnError \<Rightarrow> False)"

text \<open>The \<open>catch\<close> block.\<close>

definition catch_block :: "thrown \<Rightarrow> page \<times> effect list \<Rightarrow> (page \<times> effect list) option" where
  "catch_block err acc =
     (case acc of
        (st, log) \<Rightarrow>
          if is_abort err then Some (st, log)
          else
            (let errorMessage =
                   (case err of
                      ErrorObject name message \<Rightarrow> message
                    | NotAnError \<Rightarrow> js ''Failed to send message'')
             in case rollback (currentChatData st) of
                  None \<Rightarrow> None
                | Some chat' \<Rightarrow>
                    Some (st\<lparr>sendMessageError := Some errorMessage, currentChatData := chat'\<rparr>,
                          log @ [ToastError errorMessage])))"

text \<open>The \<open>finally\<close> block.\<close>

definition finally_block :: "page \<Rightarrow> page" where
  "finally_block st =
     st\<lparr>isMessageSending := False, isStreaming := False, streamingMessage := [],
        agentStatus := JStr [], abortControllerRef := None\<rparr>"

text \<open>
  \<open>handleSendMessage(content)\<close>, from the page \<open>st\<close> in the world \<open>w\<close>: the page
  and the effects when the call has returned, or \<open>None\<close> when a state update threw
  while React rendered.
\<close>

definition handleSendMessage ::
  "platform \<Rightarrow> world \<Rightarrow> jsstring \<Rightarrow> page \<Rightarrow> (page \<times> effect list) option" where
  "handleSendMessage P w content st =
     (case currentChatData st of
        None \<Rightarrow> Some (st\<lparr>sendMessageError := Some (js ''Chat or user not found'')\<rparr>, [])
      | Some c \<Rightarrow>
          (case userId w of
             None \<Rightarrow> Some (st\<lparr>sendMessageError := Some (js ''Chat or user not found'')\<rparr>, [])
           | Some uid \<Rightarrow>
               if uid = [] then
                 Some (st\<lparr>sendMessageError := Some (js ''Chat or user not found'')\<rparr>, [])
               else
                 (case try_block P w c uid content st of
                    None \<Rightarrow> None
                  | Some (st', log, None) \<Rightarrow> Some (finally_block st', log)
                  | Some (st', log, Some err) \<Rightarrow>
                      (case catch_block err (st', log) of
                         None \<Rightarrow> None
                       | Some (st'', log') \<Rightarrow> Some (finally_block st'', log')))))"

section \<open>Notions used in the statements\<close>

text \<open>
  A message as the interface \<open>Message\<close> declares it has a string \<open>id\<close>; a value is
  readable when reading a property of it does not throw; a temporary message is one whose
  \<open>id\<close> starts with \<open>temp-\<close>.
\<close>

definition has_string_id :: "jsval \<Rightarrow> bool" where
  "has_string_id m = (case get_prop m (js ''id'') of Some (JStr s) \<Rightarrow> True | _ \<Rightarrow> False)"

definition readable :: "jsval \<Rightarrow> bool" where
  "readable m = (case m of JUndefined \<Rightarrow> False | JNull \<Rightarrow> False | _ \<Rightarrow> True)"

definition has_temp_id :: "jsval \<Rightarrow> bool" where
  "has_temp_id m =
     (case get_prop m (js ''id'') of Some (JStr s) \<Rightarrow> startsWith s (js ''temp-'') | _ \<Rightarrow> False)"

text \<open>
  The engine answers: no payload decodes to \<open>null\<close> (or \<open>undefined\<close>), and the
  conversion to a string never throws.
\<close>

definition answers :: "platform \<Rightarrow> bool" where
  "answers P \<longleftrightarrow>
     (\<forall>s. JSON_parse P s \<noteq> Some JNull \<and> JSON_parse P s \<noteq> Some JUndefined) \<and>
     (\<forall>v. ToString P v \<noteq> None)"

text \<open>
  \<open>Q\<close> is a property of messages that makes them readable and that the messages of
  every payload have; the loop's state is steady when no error has been shown and the
  conversation is there with all its messages in \<open>Q\<close>.
\<close>

definition admits :: "platform \<Rightarrow> (jsval \<Rightarrow> bool) \<Rightarrow> bool" where
  "admits P Q \<longleftrightarrow>
     (\<forall>m. Q m \<longrightarrow> readable m) \<and>
     (\<forall>s data v. JSON_parse P s = Some data \<longrightarrow> truthy P v \<longrightarrow>
        (get_prop data (js ''userMessage'') = Some v \<or> get_prop data (js ''aiMessage'') = Some v) \<longrightarrow>
        Q v)"

definition steady :: "(jsval \<Rightarrow> bool) \<Rightarrow> page \<times> effect list \<Rightarrow> bool" where
  "steady Q acc \<longleftrightarrow>
     (case acc of
        (st, log) \<Rightarrow>
          sendMessageError st = None \<and> (\<forall>msg. ToastError msg \<notin> set log) \<and>
          (\<exists>c. currentChatData st = Some c \<and> (\<forall>m\<in>set (messages c). Q m)))"

text \<open>
  The failure paths of a send that are not a cancellation: \<open>getToken\<close> or \<open>fetch\<close>
  rejects, the status is not a success, the response has no body, or a \<open>read\<close>
  rejects. The first four happen before any chunk is read.
\<close>

definition send_fails :: "world \<Rightarrow> bool" where
  "send_fails w =
     (case getToken w of
        Inl e \<Rightarrow> \<not> is_abort e
      | Inr token \<Rightarrow>
          (case fetch w of
             Inl e \<Rightarrow> \<not> is_abort e
           | Inr resp \<Rightarrow>
               \<not> resp_ok resp \<or>
               (case resp_body resp of
                  None \<Rightarrow> True
                | Some stream \<Rightarrow>
                    (case stream_end stream of None \<Rightarrow> False | Some e \<Rightarrow> \<not> is_abort e))))"

definition fails_before_reading :: "world \<Rightarrow> bool" where
  "fails_before_reading w =
     (case getToken w of
        Inl e \<Rightarrow> True
      | Inr token \<Rightarrow>
          (case fetch w of
             Inl e \<Rightarrow> True
           | Inr resp \<Rightarrow> \<not> resp_ok resp \<or> resp_body resp = None))"

text \<open>
  \<open>sep\<close> occurs in a text. A block is well formed when the separator does not occur in
  it and it does not end with a newline: a final newline would pair with the first newline
  of the separator that follows, and the cut would fall one character early.
\<close>

fun occurs :: "jsstring \<Rightarrow> jsstring \<Rightarrow> bool" where
  "occurs sep [] = (sep = [])"
| "occurs sep (c # cs) = (prefix sep (c # cs) \<or> occurs sep cs)"

definition well_formed_block :: "jsstring \<Rightarrow> bool" where
  "well_formed_block b \<longleftrightarrow> \<not> occurs block_sep b \<and> (b = [] \<or> last b \<noteq> newline)"

text \<open>
  Two readings of a block with several \<open>event: \<close> or \<open>data: \<close> lines: the first
  matching line of each kind counts, or the last one does.
\<close>

definition is_event_line :: "jsstring \<Rightarrow> bool" where
  "is_event_line line = startsWith line (js ''event: '')"

definition is_data_line :: "jsstring \<Rightarrow> bool" where
  "is_data_line line = startsWith line (js ''data: '')"

definition first_match_parse :: "jsstring \<Rightarrow> jsstring \<times> jsstring" where
  "first_match_parse eventBlock =
     (let lines = split [newline] eventBlock
      in ((case find is_event_line lines of None \<Rightarrow> [] | Some line \<Rightarrow> trim (slice_from line 7)),
          (case find is_data_line lines of None \<Rightarrow> [] | Some line \<Rightarrow> slice_from line 6)))"

definition last_match_parse :: "jsstring \<Rightarrow> jsstring \<times> jsstring" where
  "last_match_parse eventBlock =
     (let lines = rev (split [newline] eventBlock)
      in ((case find is_event_line lines of None \<Rightarrow> [] | Some line \<Rightarrow> trim (slice_from line 7)),
          (case find is_data_line lines of None \<Rightarrow> [] | Some line \<Rightarrow> slice_from line 6)))"

section \<open>Example inputs\<close>

text \<open>
  Payloads as the server writes them, and an engine for the examples: it decodes these
  payloads as \<open>JSON.parse\<close> does, rejects every other text, and its conversion to a
  string never throws.
\<close>

definition rate_limited_payload :: jsstring where
  \<open>rate_limited_payload = js ''{"message":"rate limited"}''\<close>

definition hi_payload :: jsstring where
  \<open>hi_payload = js ''{"content":"Hi"}''\<close>

definition half_done_payload :: jsstring where
  \<open>half_done_payload = js ''{"userMessage":{"id":"u1"}}''\<close>

definition broken_payload :: jsstring where
  \<open>broken_payload = js ''{"content":''\<close>

definition user_u1 :: jsval where
  "user_u1 = JObj [(js ''id'', JStr (js ''u1''))]"

definition assistant_a1 :: jsval where
  "assistant_a1 = JObj [(js ''id'', JStr (js ''a1''))]"

definition done_data :: jsval where
  "done_data = JObj [(js ''userMessage'', user_u1), (js ''aiMessage'', assistant_a1)]"

definition demo_platform :: platform where
  "demo_platform =
     \<lparr>JSON_parse =
        (\<lambda>s. if s = rate_limited_payload then
                 Some (JObj [(js ''message'', JStr (js ''rate limited''))])
              else if s = hi_payload then Some (JObj [(js ''content'', JStr (js ''Hi''))])
              else if s = half_done_payload then Some (JObj [(js ''userMessage'', user_u1)])
              else None),
      ToString = (\<lambda>v. case v of JStr s \<Rightarrow> Some s | _ \<Rightarrow> Some (js ''[object Object]'')),
      is_zero = (\<lambda>n. False)\<rparr>"

definition rate_limited_block :: jsstring where
  "rate_limited_block = js ''event: error'' @ [newline] @ js ''data: '' @ rate_limited_payload"

definition token_block :: jsstring where
  "token_block = js ''event: token'' @ [newline] @ js ''data: '' @ hi_payload"

definition broken_block :: jsstring where
  "broken_block = js ''event: token'' @ [newline] @ js ''data: '' @ broken_payload"

definition two_of_each :: jsstring where
  "two_of_each = js ''event: token'' @ [newline] @ js ''event: status'' @ [newline]
                   @ js ''data: 1'' @ [newline] @ js ''data: 2''"

text \<open>
  A conversation with one persisted message and one temporary message left from before,
  a page that shows it, and the worlds of five sends.
\<close>

definition demo_chat :: chat where
  "demo_chat =
     \<lparr>ident = js ''c1'',
      messages = [JObj [(js ''id'', JStr (js ''m0''))], JObj [(js ''id'', JStr (js ''temp-1''))]]\<rparr>"

definition empty_chat :: chat where
  "empty_chat = \<lparr>ident = js ''c1'', messages = []\<rparr>"

definition demo_page :: page where
  "demo_page =
     \<lparr>currentChatData = Some demo_chat, sendMessageError = None, isMessageSending = False,
      isStreaming = False, streamingMessage = [], agentStatus = JStr [],
      abortControllerRef = None\<rparr>"

definition world_with :: "thrown + response \<Rightarrow> world" where
  "world_with answer =
     \<lparr>API_BASE_URL = js ''http://localhost:8000'', projectId = js ''p1'',
      userId = Some (js ''user_1''), date_now = 7, date_iso = js ''2025-01-01T00:00:00.000Z'',
      getToken = Inr (Some (js ''tok'')), fetch = answer\<rparr>"

definition rate_limited_stream :: body_stream where
  "rate_limited_stream = \<lparr>stream_chunks = [rate_limited_block @ block_sep], stream_end = None\<rparr>"

definition rate_limited_world :: world where
  "rate_limited_world =
     world_with (Inr \<lparr>resp_ok = True, resp_status = 200, resp_body = Some rate_limited_stream\<rparr>)"

definition cancelled_stream :: body_stream where
  "cancelled_stream =
     \<lparr>stream_chunks = [token_block @ block_sep],
      stream_end = Some (ErrorObject (js ''AbortError'') (js ''The user aborted a request.''))\<rparr>"

definition cancelled_world :: world where
  "cancelled_world =
     world_with (Inr \<lparr>resp_ok = True, resp_status = 200, resp_body = Some cancelled_stream\<rparr>)"

definition dropped_stream :: body_stream where
  "dropped_stream =
     \<lparr>stream_chunks = [token_block @ block_sep],
      stream_end = Some (ErrorObject (js ''TypeError'') (js ''network error''))\<rparr>"

definition dropped_world :: world where
  "dropped_world =
     world_with (Inr \<lparr>resp_ok = True, resp_status = 200, resp_body = Some dropped_stream\<rparr>)"

definition unavailable_world :: world where
  "unavailable_world = world_with (Inr \<lparr>resp_ok = False, resp_status = 503, resp_body = None\<rparr>)"

definition signed_out_world :: world where
  "signed_out_world = (world_with (Inl NotAnError))\<lparr>userId := None\<rparr>"

section \<open>Splitting and the read loop\<close>

lemma split_nonempty: "sep \<noteq> [] \<Longrightarrow> split sep s \<noteq> []"
  by (induction sep s rule: split.induct) (subst split.simps, auto split: list.splits simp: neq_Nil_conv)

lemma cons_first_ne: "cons_first c ps \<noteq> []"
  by (cases ps) auto

lemma split_short: "length s < length sep \<Longrightarrow> split sep s = [s]"
proof (induction s)
  case Nil
  then show ?case by (subst split.simps) auto
next
  case (Cons a s)
  then have "\<not> prefix sep (a # s)" by (auto dest: prefix_length_le)
  with Cons show ?case by (subst split.simps) auto
qed

lemma split_single: "sep \<noteq> [] \<Longrightarrow> split sep s = [p] \<Longrightarrow> p = s"
proof (induction sep s arbitrary: p rule: split.induct)
  case (1 sep s)
  show ?case
  proof (cases "prefix sep s")
    case True
    then have "split sep s = [] # split sep (drop (length sep) s)"
      using "1.prems" by (subst split.simps) simp
    with "1.prems" split_nonempty[of sep "drop (length sep) s"] show ?thesis by simp
  next
    case False
    show ?thesis
    proof (cases s)
      case Nil
      then have "split sep s = [[]]" using "1.prems" False by (subst split.simps) simp
      with "1.prems" Nil show ?thesis by simp
    next
      case (Cons c cs)
      then have e: "split sep s = cons_first c (split sep cs)"
        using "1.prems" False by (subst split.simps) simp
      obtain q qs where q: "split sep cs = q # qs"
        using split_nonempty[OF "1.prems"(1), of cs] by (cases "split sep cs") auto
      with e "1.prems" have "qs = []" "p = c # q" by auto
      with q "1.IH"(2)[OF "1.prems"(1) False Cons "1.prems"(1), of q] Cons show ?thesis by simp
    qed
  qed
qed

lemma split_append:
  "sep \<noteq> [] \<Longrightarrow> split sep (s @ t) = butlast (split sep s) @ split sep (last (split sep s) @ t)"
proof (induction sep s rule: split.induct)
  case (1 sep s)
  show ?case
  proof (cases "prefix sep s")
    case True
    then have pst: "prefix sep (s @ t)" by (auto simp: prefix_def)
    from True have d: "drop (length sep) (s @ t) = drop (length sep) s @ t"
      by (auto simp: prefix_def)
    have s1: "split sep s = [] # split sep (drop (length sep) s)"
      using True "1.prems" by (subst split.simps) simp
    have s2: "split sep (s @ t) = [] # split sep (drop (length sep) s @ t)"
      using pst "1.prems" d by (subst split.simps) simp
    have ne: "split sep (drop (length sep) s) \<noteq> []" using "1.prems" by (rule split_nonempty)
    show ?thesis using "1.IH"(1)[OF "1.prems" True "1.prems"] s1 s2 ne by simp
  next
    case False
    show ?thesis
    proof (cases "length s < length sep")
      case True
      then show ?thesis by (simp add: split_short)
    next
      case ge: False
      then obtain c cs where s: "s = c # cs" using "1.prems" by (cases s) auto
      have npst: "\<not> prefix sep (s @ t)"
      proof
        assume "prefix sep (s @ t)"
        then have "prefix sep s \<or> prefix s sep" by (auto simp: prefix_append)
        with False have "prefix s sep" by simp
        moreover have "length sep \<le> length s" using ge by simp
        ultimately have "s = sep" by (metis prefix_length_le le_antisym prefix_length_prefix prefix_order.antisym prefix_order.refl)
        with False show False by simp
      qed
      have s1: "split sep s = cons_first c (split sep cs)"
        using False "1.prems" s by (subst split.simps) simp
      have s2: "split sep (s @ t) = cons_first c (split sep (cs @ t))"
        using npst "1.prems" s by (subst split.simps) simp
      have IH: "split sep (cs @ t) = butlast (split sep cs) @ split sep (last (split sep cs) @ t)"
        using "1.IH"(2)[OF "1.prems" False s "1.prems"] .
      obtain p ps where pps: "split sep cs = p # ps"
        using split_nonempty[OF "1.prems", of cs] by (cases "split sep cs") auto
      show ?thesis
      proof (cases ps)
        case Nil
        with pps s1 have "split sep s = [c # p]" by simp
        moreover from Nil pps IH have "split sep (cs @ t) = split sep (p @ t)" by simp
        moreover have "p = cs" using split_single[OF "1.prems"] pps Nil by simp
        ultimately show ?thesis using s2 s by simp
      next
        case (Cons q qs)
        then show ?thesis using pps s1 s2 IH by simp
      qed
    qed
  qed
qed


lemma split_last_residue:
  "sep \<noteq> [] \<Longrightarrow> split sep (last (split sep s)) = [last (split sep s)]"
proof (induction sep s rule: split.induct)
  case (1 sep s)
  show ?case
  proof (cases "prefix sep s")
    case True
    then have "split sep s = [] # split sep (drop (length sep) s)"
      using "1.prems" by (subst split.simps) simp
    then show ?thesis
      using "1.IH"(1)[OF "1.prems" True "1.prems"] split_nonempty[OF "1.prems"] by simp
  next
    case False
    show ?thesis
    proof (cases s)
      case Nil
      then have "split sep s = [[]]" using "1.prems" False by (subst split.simps) simp
      then show ?thesis using Nil by simp
    next
      case (Cons c cs)
      then have e: "split sep s = cons_first c (split sep cs)"
        using "1.prems" False by (subst split.simps) simp
      obtain q qs where q: "split sep cs = q # qs"
        using split_nonempty[OF "1.prems"(1), of cs] by (cases "split sep cs") auto
      show ?thesis
      proof (cases qs)
        case Nil
        then have "q = cs" using split_single[OF "1.prems"] q by simp
        with e q Nil Cons have "split sep s = [s]" by simp
        then show ?thesis by simp
      next
        case (Cons r rs)
        with e q have "last (split sep s) = last (split sep cs)" by simp
        then show ?thesis using "1.IH"(2)[OF "1.prems"(1) False \<open>s = c # cs\<close> "1.prems"(1)] by simp
      qed
    qed
  qed
qed

lemma decode_step_eq:
  "decode_step buffer chunk =
     (butlast (split block_sep (buffer @ chunk)), last (split block_sep (buffer @ chunk)))"
proof -
  have "split block_sep (buffer @ chunk) \<noteq> []"
    by (rule split_nonempty) (simp add: block_sep_def)
  then show ?thesis by (simp add: decode_step_def pop_def Let_def)
qed

lemma read_loop_eq:
  "split block_sep buffer = [buffer] \<Longrightarrow>
   read_loop body buffer st chunks =
     (foldl body st (butlast (split block_sep (buffer @ concat chunks))),
      last (split block_sep (buffer @ concat chunks)))"
proof (induction chunks arbitrary: buffer st)
  case Nil
  then show ?case by simp
next
  case (Cons chunk chunks)
  have sep: "block_sep \<noteq> []" by (simp add: block_sep_def)
  let ?ev = "butlast (split block_sep (buffer @ chunk))"
  let ?b = "last (split block_sep (buffer @ chunk))"
  have res: "split block_sep ?b = [?b]" using sep by (rule split_last_residue)
  have app: "split block_sep ((buffer @ chunk) @ concat chunks) = ?ev @ split block_sep (?b @ concat chunks)"
    using sep by (rule split_append)
  have ne: "split block_sep (?b @ concat chunks) \<noteq> []" using sep by (rule split_nonempty)
  have "read_loop body buffer st (chunk # chunks) = read_loop body ?b (foldl body st ?ev) chunks"
    by (simp add: decode_step_eq)
  also have "\<dots> = (foldl body (foldl body st ?ev) (butlast (split block_sep (?b @ concat chunks))),
      last (split block_sep (?b @ concat chunks)))"
    using Cons.IH[OF res] .
  finally show ?case using app ne by (simp add: butlast_append)
qed

lemma split_residue: "sep \<noteq> [] \<Longrightarrow> \<not> occurs sep r \<Longrightarrow> split sep r = [r]"
proof (induction r)
  case Nil
  then show ?case by (subst split.simps) simp
next
  case (Cons c cs)
  then show ?case by (subst split.simps) simp
qed

lemma split_block:
  "well_formed_block b \<Longrightarrow> split block_sep (b @ block_sep @ r) = b # split block_sep r"
proof (induction b)
  case Nil
  show ?case by (subst split.simps) (simp add: block_sep_def)
next
  case (Cons c cs)
  have wf: "well_formed_block cs" using Cons.prems by (auto simp: well_formed_block_def split: if_splits)
  have np: "\<not> prefix block_sep ((c # cs) @ block_sep @ r)"
    using Cons.prems by (cases cs) (auto simp: well_formed_block_def block_sep_def)
  have "block_sep \<noteq> []" by (simp add: block_sep_def)
  then have "split block_sep ((c # cs) @ block_sep @ r) = cons_first c (split block_sep (cs @ block_sep @ r))"
    using np by (subst split.simps) simp
  then show ?case using Cons.IH[OF wf] by simp
qed

lemma split_blocks:
  "\<forall>b\<in>set bs. well_formed_block b \<Longrightarrow> \<not> occurs block_sep rest \<Longrightarrow>
   split block_sep (concat (map (\<lambda>b. b @ block_sep) bs) @ rest) = bs @ [rest]"
proof (induction bs)
  case Nil
  then show ?case by (simp add: split_residue block_sep_def)
next
  case (Cons b bs)
  then show ?case by (simp add: split_block)
qed

lemma foldl_snoc: "foldl (\<lambda>emitted block. emitted @ [block]) acc xs = acc @ xs"
  by (induction xs arbitrary: acc) auto

lemma split_empty: "split block_sep [] = [[]]"
  by (subst split.simps) (simp add: block_sep_def)

section \<open>The claims\<close>

text \<open>
  C2. Chunk-boundary invariance of the Frame Decoder. Whenever the texts of the chunks,
  joined, are a sequence of well-formed blocks, each followed by the separator, and then a
  residue without a separator, the decoder hands exactly these blocks to the \<open>for\<close>, in
  order, and keeps the residue in the buffer, however the text is cut into chunks: a
  separator cut in two, empty chunks and a chunk that ends on a separator (empty residue,
  no extra empty block) are cuts like any other. The chunks are the texts the streaming
  \<open>TextDecoder\<close> returns for the bytes read.
\<close>

theorem frame_decoder_chunk_invariance:
  assumes "\<forall>b\<in>set blocks. well_formed_block b"
      and "\<not> occurs block_sep rest"
      and "concat chunks = concat (map (\<lambda>b. b @ block_sep) blocks) @ rest"
    shows "frame_decoder chunks = (blocks, rest)"
proof -
  have "frame_decoder chunks =
      (butlast (split block_sep (concat chunks)), last (split block_sep (concat chunks)))"
    unfolding frame_decoder_def by (simp add: read_loop_eq split_empty foldl_snoc)
  then show ?thesis using assms by (simp add: split_blocks)
qed

theorem frame_decoder_chunk_invariance_witness:
  "well_formed_block (js ''a'') \<and> well_formed_block (js ''b'') \<and> \<not> occurs block_sep [] \<and>
   concat [js ''a'' @ [newline], [newline] @ js ''b'', [], block_sep]
     = concat (map (\<lambda>b. b @ block_sep) [js ''a'', js ''b'']) @ [] \<and>
   frame_decoder [js ''a'' @ [newline], [newline] @ js ''b'', [], block_sep]
     = ([js ''a'', js ''b''], [])"
proof -
  have each: "well_formed_block (js ''a'')" "well_formed_block (js ''b'')"
    by (simp_all add: well_formed_block_def js_def block_sep_def newline_def)
  have h1: "\<forall>b\<in>set [js ''a'', js ''b'']. well_formed_block b"
    using each by simp
  have h2: "\<not> occurs block_sep []" by (simp add: block_sep_def)
  have h3: "concat [js ''a'' @ [newline], [newline] @ js ''b'', [], block_sep]
     = concat (map (\<lambda>b. b @ block_sep) [js ''a'', js ''b'']) @ []"
    by (simp add: block_sep_def)
  show ?thesis using each h2 h3 frame_decoder_chunk_invariance[OF h1 h2 h3] by blast
qed

text \<open>
  C4 as the specification has it says that the first \<open>event: \<close> line and the first
  \<open>data: \<close> line of a block count. The loop over the lines has no \<open>break\<close> and
  assigns at every matching line, so the last line of each kind counts. In the block
  \<open>event: token / event: status / data: 1 / data: 2\<close> the parser reads the type
  \<open>status\<close> and the payload \<open>2\<close>, where the first lines say \<open>token\<close> and \<open>1\<close>.
\<close>

lemma event_not_data: "is_event_line l \<Longrightarrow> \<not> is_data_line l"
  by (auto simp: is_event_line_def is_data_line_def startsWith_def js_def prefix_def)

lemma foldl_scan_line:
  "foldl scan_line (e, d) ls =
     ((case find is_event_line (rev ls) of None \<Rightarrow> e | Some line \<Rightarrow> trim (slice_from line 7)),
      (case find is_data_line (rev ls) of None \<Rightarrow> d | Some line \<Rightarrow> slice_from line 6))"
proof (induction ls rule: rev_induct)
  case Nil
  then show ?case by simp
next
  case (snoc l ls)
  then show ?case
    using event_not_data[of l]
    by (auto simp: scan_line_def is_event_line_def[symmetric] is_data_line_def[symmetric])
qed

theorem first_lines_not_honored:
  "parse_block two_of_each = (js ''status'', js ''2'') \<and>
   first_match_parse two_of_each = (js ''token'', js ''1'')"
  by (simp add: parse_block_def first_match_parse_def two_of_each_def js_def newline_def
      split.simps scan_line_def startsWith_def slice_from_def trim_def is_white_def
      is_event_line_def is_data_line_def)

text \<open>
  C4, amended. For every event block, the Event Parser honors the last line that starts
  with \<open>event: \<close> and the last line that starts with \<open>data: \<close>: the event type is the
  trimmed rest of the former, the payload text the rest of the latter, and each is empty
  when the block has no such line.
\<close>

theorem parser_honors_last_lines: "parse_block eventBlock = last_match_parse eventBlock"
  by (simp add: parse_block_def last_match_parse_def foldl_scan_line Let_def)

text \<open>
  C5. Let a block reach \<open>JSON.parse\<close> (it is not blank and the line scan found an event
  type and a payload text), and let the payload text not be valid JSON. Then the block
  produces no event and raises nothing out of the loop body: the page (conversation,
  streaming text and all the rest) is the same after the block, exactly one effect is
  added, the warning on the console, and the blocks that follow are processed from that
  unchanged page. (A block that is passed over before \<open>JSON.parse\<close> is not parsed at
  all.)
\<close>

theorem invalid_json_is_logged_and_skipped:
  assumes "trim eventBlock \<noteq> []"
    and "parse_block eventBlock = (eventType, dataStr)"
    and "eventType \<noteq> []" "dataStr \<noteq> []"
    and "JSON_parse P dataStr = None"
  shows "process_block P optimistic_id (Some (st, log)) eventBlock
           = Some (st, log @ [ConsoleWarn])
       \<and> foldl (process_block P optimistic_id) (Some (st, log)) (eventBlock # blocks)
           = foldl (process_block P optimistic_id) (Some (st, log @ [ConsoleWarn])) blocks"
proof -
  have "dispatch P optimistic_id st eventType dataStr = Some (Inl SyntaxError)"
    using assms(5) by (simp add: dispatch_def)
  then have "process_block P optimistic_id (Some (st, log)) eventBlock
               = Some (st, log @ [ConsoleWarn])"
    using assms(1-4) by (simp add: process_block_def)
  then show ?thesis by simp
qed

lemma parse_broken_block: "parse_block broken_block = (js ''token'', broken_payload)"
  by (simp add: parse_block_def broken_block_def broken_payload_def js_def newline_def
      split.simps scan_line_def startsWith_def slice_from_def trim_def is_white_def)

lemma demo_rejects_broken: "JSON_parse demo_platform broken_payload = None"
  by (simp add: demo_platform_def broken_payload_def rate_limited_payload_def hi_payload_def
      half_done_payload_def js_def)

theorem invalid_json_is_logged_and_skipped_witness:
  "trim broken_block \<noteq> [] \<and>
   parse_block broken_block = (js ''token'', broken_payload) \<and>
   js ''token'' \<noteq> [] \<and> broken_payload \<noteq> [] \<and>
   JSON_parse demo_platform broken_payload = None \<and>
   process_block demo_platform (js ''temp-7'') (Some (demo_page, [])) broken_block
     = Some (demo_page, [ConsoleWarn]) \<and>
   foldl (process_block demo_platform (js ''temp-7'')) (Some (demo_page, []))
       (broken_block # [token_block])
     = foldl (process_block demo_platform (js ''temp-7'')) (Some (demo_page, [ConsoleWarn]))
         [token_block]"
proof -
  have h1: "trim broken_block \<noteq> []"
    by (simp add: broken_block_def broken_payload_def js_def newline_def trim_def is_white_def)
  have h3: "js ''token'' \<noteq> []" by (simp add: js_def)
  have h4: "broken_payload \<noteq> []" by (simp add: broken_payload_def js_def)
  show ?thesis
    using h1 parse_broken_block h3 h4 demo_rejects_broken
      invalid_json_is_logged_and_skipped[where optimistic_id="js ''temp-7''"
        and st=demo_page and log="[]" and blocks="[token_block]",
        OF h1 parse_broken_block h3 h4 demo_rejects_broken]
    by simp
qed

section \<open>Conversation Reconciler\<close>

lemma readable_get: "readable m \<longleftrightarrow> get_prop m name \<noteq> None"
  by (cases m) (auto simp: readable_def get_prop_def)

lemma truthy_readable: "truthy P v \<Longrightarrow> readable v"
  by (cases v) (auto simp: truthy_def readable_def)

lemma string_id_readable: "has_string_id m \<Longrightarrow> readable m"
  by (cases m) (auto simp: has_string_id_def readable_def get_prop_def)

lemma filter_throwing_total:
  "\<forall>x\<in>set xs. f x \<noteq> None \<Longrightarrow> filter_throwing f xs = Some (filter (\<lambda>x. f x = Some True) xs)"
  by (induction xs) auto

lemma differs_total: "readable m \<Longrightarrow> differs_from_id oid m \<noteq> None"
  by (cases m) (auto simp: differs_from_id_def readable_def get_prop_def split: option.splits jsval.splits)

lemma not_temp_total: "has_string_id m \<Longrightarrow> not_temp m = Some (\<not> has_temp_id m)"
  by (auto simp: not_temp_def has_string_id_def has_temp_id_def split: option.splits jsval.splits)

lemma optimistic_id:
  "get_prop (optimisticUserMessage w c uid content) (js ''id'') = Some (JStr (js ''temp-'' @ show_nat (date_now w)))"
  by (simp add: optimisticUserMessage_def get_prop_def)

lemma optimistic_temp: "has_temp_id (optimisticUserMessage w c uid content)"
  by (simp add: has_temp_id_def optimistic_id startsWith_def)

lemma optimistic_string_id: "has_string_id (optimisticUserMessage w c uid content)"
  by (simp add: has_string_id_def optimistic_id)

lemma rollback_filter:
  "\<forall>m\<in>set (messages c). has_string_id m \<Longrightarrow>
   rollback (Some c) = Some (Some (c\<lparr>messages := filter (\<lambda>m. \<not> has_temp_id m) (messages c)\<rparr>))"
proof -
  assume a: "\<forall>m\<in>set (messages c). has_string_id m"
  then have "\<forall>m\<in>set (messages c). not_temp m \<noteq> None" by (simp add: not_temp_total)
  then have "filter_throwing not_temp (messages c) = Some (filter (\<lambda>m. not_temp m = Some True) (messages c))"
    by (rule filter_throwing_total)
  moreover have "filter (\<lambda>m. not_temp m = Some True) (messages c) = filter (\<lambda>m. \<not> has_temp_id m) (messages c)"
    using a by (intro filter_cong) (auto simp: not_temp_total)
  ultimately show ?thesis by (simp add: rollback_def)
qed

lemma finalize_filter:
  assumes "\<forall>m\<in>set (messages c). readable m"
    and "get_prop data (js ''userMessage'') = Some u" "get_prop data (js ''aiMessage'') = Some a"
    and "truthy P u" "truthy P a"
  shows "finalize P oid data (Some c) =
     Some (Some (c\<lparr>messages := filter (\<lambda>m. differs_from_id oid m = Some True) (messages c) @ [u, a]\<rparr>))"
proof -
  have "\<forall>m\<in>set (messages c). differs_from_id oid m \<noteq> None"
    using assms(1) by (simp add: differs_total)
  then have "filter_throwing (differs_from_id oid) (messages c)
      = Some (filter (\<lambda>m. differs_from_id oid m = Some True) (messages c))"
    by (rule filter_throwing_total)
  then show ?thesis using assms by (simp add: finalize_def)
qed

lemma demo_chat_string_ids: "\<forall>m\<in>set (messages demo_chat). has_string_id m"
  by (simp add: demo_chat_def has_string_id_def get_prop_def)

lemma demo_chat_readable: "\<forall>m\<in>set (messages demo_chat). readable m"
  by (simp add: demo_chat_def readable_def)

lemma demo_chat_messages:
  "messages demo_chat = [JObj [(js ''id'', JStr (js ''m0''))], JObj [(js ''id'', JStr (js ''temp-1''))]]"
  by (simp add: demo_chat_def)

lemma demo_messages_string_ids:
  "has_string_id (JObj [(js ''id'', JStr (js ''m0''))])"
  "has_string_id (JObj [(js ''id'', JStr (js ''temp-1''))])"
  by (simp_all add: has_string_id_def get_prop_def)

lemma demo_messages_readable:
  "readable (JObj [(js ''id'', JStr (js ''m0''))])"
  "readable (JObj [(js ''id'', JStr (js ''temp-1''))])"
  by (simp_all add: readable_def)

text \<open>
  C3 as the specification has it ends with: a repeated \<open>finalize\<close> with the same
  arguments is a no-op. The function the \<open>done\<close> branch gives to the setter has no test
  for that: it filters by the temporary id and appends the two messages, every time. On
  the empty conversation, after the optimistic append, the first \<open>finalize\<close> leaves
  \<open>[u1, a1]\<close> and the second one \<open>[u1, a1, u1, a1]\<close>.
\<close>

theorem second_finalize_appends_again:
  "finalize demo_platform (js ''temp-7'') done_data
     (append_optimistic (optimisticUserMessage rate_limited_world empty_chat (js ''user_1'') (js ''Hello''))
        (Some empty_chat))
     = Some (Some (empty_chat\<lparr>messages := [user_u1, assistant_a1]\<rparr>)) \<and>
   finalize demo_platform (js ''temp-7'') done_data
     (Some (empty_chat\<lparr>messages := [user_u1, assistant_a1]\<rparr>))
     = Some (Some (empty_chat\<lparr>messages := [user_u1, assistant_a1, user_u1, assistant_a1]\<rparr>)) \<and>
   finalize demo_platform (js ''temp-7'') done_data
     (Some (empty_chat\<lparr>messages := [user_u1, assistant_a1]\<rparr>))
     \<noteq> Some (Some (empty_chat\<lparr>messages := [user_u1, assistant_a1]\<rparr>))"
  by (simp add: finalize_def append_optimistic_def optimisticUserMessage_def empty_chat_def
      done_data_def user_u1_def assistant_a1_def get_prop_def truthy_def differs_from_id_def
      rate_limited_world_def world_with_def show_nat.simps js_def)

text \<open>
  C3, amended. Let the conversation hold only readable values, let \<open>u\<close> and \<open>a\<close> be
  the two messages of the \<open>done\<close> payload, both passing the truth test and neither
  carrying the temporary id. After the optimistic append of \<open>m\<close> and \<open>finalize\<close>,
  the list no longer contains \<open>m\<close> and ends with \<open>u\<close> immediately followed by
  \<open>a\<close>. A repeated \<open>finalize\<close> with the same arguments succeeds as well and appends
  \<open>u\<close> and \<open>a\<close> once more.
\<close>

theorem finalize_replaces_then_appends_again:
  assumes "\<forall>m\<in>set (messages c). readable m"
    and "get_prop data (js ''userMessage'') = Some u" "get_prop data (js ''aiMessage'') = Some a"
    and "truthy P u" "truthy P a"
    and "differs_from_id (js ''temp-'' @ show_nat (date_now w)) u = Some True"
    and "differs_from_id (js ''temp-'' @ show_nat (date_now w)) a = Some True"
  shows "\<exists>c1 c2 kept.
           finalize P (js ''temp-'' @ show_nat (date_now w)) data
               (append_optimistic (optimisticUserMessage w c uid content) (Some c)) = Some (Some c1)
         \<and> optimisticUserMessage w c uid content \<notin> set (messages c1)
         \<and> messages c1 = kept @ [u, a]
         \<and> finalize P (js ''temp-'' @ show_nat (date_now w)) data (Some c1) = Some (Some c2)
         \<and> messages c2 = messages c1 @ [u, a]"
proof -
  let ?oid = "js ''temp-'' @ show_nat (date_now w)"
  let ?m = "optimisticUserMessage w c uid content"
  let ?keep = "\<lambda>m. differs_from_id ?oid m = Some True"
  let ?c0 = "c\<lparr>messages := messages c @ [?m]\<rparr>"
  let ?c1 = "?c0\<lparr>messages := filter ?keep (messages ?c0) @ [u, a]\<rparr>"
  let ?c2 = "?c1\<lparr>messages := filter ?keep (messages ?c1) @ [u, a]\<rparr>"
  have opt: "differs_from_id ?oid ?m = Some False"
    by (simp add: differs_from_id_def optimistic_id)
  have ru: "readable u" "readable a" using assms(4,5) by (auto dest: truthy_readable)
  have all0: "\<forall>m\<in>set (messages ?c0). readable m"
    using assms(1) by (simp add: string_id_readable optimistic_string_id)
  have f1: "finalize P ?oid data (Some ?c0) = Some (Some ?c1)"
    using all0 assms(2-5) by (rule finalize_filter)
  have all1: "\<forall>m\<in>set (messages ?c1). readable m" using all0 ru by auto
  have f2: "finalize P ?oid data (Some ?c1) = Some (Some ?c2)"
    using all1 assms(2-5) by (rule finalize_filter)
  have notin: "?m \<notin> set (messages ?c1)" using opt assms(6,7) by auto
  have m2: "messages ?c2 = messages ?c1 @ [u, a]" using assms(6,7) by simp
  show ?thesis
    apply (rule exI[of _ ?c1], rule exI[of _ ?c2], rule exI[of _ "filter ?keep (messages ?c0)"])
    using f1 f2 notin m2 by (simp add: append_optimistic_def)
qed


theorem finalize_replaces_then_appends_again_witness:
  "messages demo_chat
     = [JObj [(js ''id'', JStr (js ''m0''))], JObj [(js ''id'', JStr (js ''temp-1''))]] \<and>
   readable (JObj [(js ''id'', JStr (js ''m0''))]) \<and>
   readable (JObj [(js ''id'', JStr (js ''temp-1''))]) \<and>
   get_prop done_data (js ''userMessage'') = Some user_u1 \<and>
   get_prop done_data (js ''aiMessage'') = Some assistant_a1 \<and>
   truthy demo_platform user_u1 \<and> truthy demo_platform assistant_a1 \<and>
   differs_from_id (js ''temp-'' @ show_nat (date_now rate_limited_world)) user_u1 = Some True \<and>
   differs_from_id (js ''temp-'' @ show_nat (date_now rate_limited_world)) assistant_a1 = Some True \<and>
   (\<exists>c1 c2 kept.
        finalize demo_platform (js ''temp-'' @ show_nat (date_now rate_limited_world)) done_data
            (append_optimistic
               (optimisticUserMessage rate_limited_world demo_chat (js ''user_1'') (js ''Hello''))
               (Some demo_chat)) = Some (Some c1)
      \<and> optimisticUserMessage rate_limited_world demo_chat (js ''user_1'') (js ''Hello'')
           \<notin> set (messages c1)
      \<and> messages c1 = kept @ [user_u1, assistant_a1]
      \<and> finalize demo_platform (js ''temp-'' @ show_nat (date_now rate_limited_world)) done_data
           (Some c1) = Some (Some c2)
      \<and> messages c2 = messages c1 @ [user_u1, assistant_a1])"
proof -
  have h2: "get_prop done_data (js ''userMessage'') = Some user_u1"
    by (simp add: done_data_def get_prop_def)
  have h3: "get_prop done_data (js ''aiMessage'') = Some assistant_a1"
    by (simp add: done_data_def get_prop_def js_def)
  have h4: "truthy demo_platform user_u1" by (simp add: truthy_def user_u1_def)
  have h5: "truthy demo_platform assistant_a1" by (simp add: truthy_def assistant_a1_def)
  have h6: "differs_from_id (js ''temp-'' @ show_nat (date_now rate_limited_world)) user_u1 = Some True"
    by (simp add: differs_from_id_def user_u1_def get_prop_def js_def)
  have h7: "differs_from_id (js ''temp-'' @ show_nat (date_now rate_limited_world)) assistant_a1 = Some True"
    by (simp add: differs_from_id_def assistant_a1_def get_prop_def js_def)
  show ?thesis
    using demo_chat_messages demo_messages_readable h2 h3 h4 h5 h6 h7
      finalize_replaces_then_appends_again[where uid="js ''user_1''" and content="js ''Hello''",
        OF demo_chat_readable h2 h3 h4 h5 h6 h7]
    by blast
qed

text \<open>
  C7. Let every message of the conversation have a string id. After the optimistic append
  of the message \<open>m\<close> that a send creates and the rollback, the list no longer
  contains \<open>m\<close> (it is the old list without its temporary messages), and a second
  rollback leaves the list as it is.
\<close>

theorem rollback_removes_optimistic_and_is_idempotent:
  assumes "\<forall>m\<in>set (messages c). has_string_id m"
  shows "\<exists>c1. rollback (append_optimistic (optimisticUserMessage w c uid content) (Some c)) = Some (Some c1)
           \<and> optimisticUserMessage w c uid content \<notin> set (messages c1)
           \<and> messages c1 = filter (\<lambda>m. \<not> has_temp_id m) (messages c)
           \<and> rollback (Some c1) = Some (Some c1)"
proof -
  let ?m = "optimisticUserMessage w c uid content"
  let ?c0 = "c\<lparr>messages := messages c @ [?m]\<rparr>"
  let ?c1 = "?c0\<lparr>messages := filter (\<lambda>m. \<not> has_temp_id m) (messages ?c0)\<rparr>"
  have all0: "\<forall>m\<in>set (messages ?c0). has_string_id m"
    using assms by (simp add: optimistic_string_id)
  have r1: "rollback (Some ?c0) = Some (Some ?c1)" using all0 by (rule rollback_filter)
  have all1: "\<forall>m\<in>set (messages ?c1). has_string_id m" using all0 by simp
  have r2: "rollback (Some ?c1) = Some (Some ?c1)"
    using rollback_filter[OF all1] by simp
  have "?m \<notin> set (messages ?c1)" by (simp add: optimistic_temp)
  moreover have "messages ?c1 = filter (\<lambda>m. \<not> has_temp_id m) (messages c)"
    by (simp add: optimistic_temp)
  ultimately show ?thesis using r1 r2 by (simp add: append_optimistic_def)
qed


theorem rollback_removes_optimistic_and_is_idempotent_witness:
  "messages demo_chat
     = [JObj [(js ''id'', JStr (js ''m0''))], JObj [(js ''id'', JStr (js ''temp-1''))]] \<and>
   has_string_id (JObj [(js ''id'', JStr (js ''m0''))]) \<and>
   has_string_id (JObj [(js ''id'', JStr (js ''temp-1''))]) \<and>
   (\<exists>c1. rollback (append_optimistic
                     (optimisticUserMessage unavailable_world demo_chat (js ''user_1'') (js ''Hello''))
                     (Some demo_chat)) = Some (Some c1)
        \<and> optimisticUserMessage unavailable_world demo_chat (js ''user_1'') (js ''Hello'')
             \<notin> set (messages c1)
        \<and> messages c1 = filter (\<lambda>m. \<not> has_temp_id m) (messages demo_chat)
        \<and> rollback (Some c1) = Some (Some c1))"
  using demo_chat_messages demo_messages_string_ids
    rollback_removes_optimistic_and_is_idempotent[where w=unavailable_world
      and uid="js ''user_1''" and content="js ''Hello''", OF demo_chat_string_ids]
  by blast

text \<open>
  C9. When the decoded payload of a \<open>done\<close> event has no \<open>userMessage\<close> field or no
  \<open>aiMessage\<close> field (reading it gives \<open>undefined\<close>), the function given to the
  setter returns the conversation it received, and the \<open>done\<close> branch leaves the whole
  page as it was: the optimistic message stays and nothing is appended.
\<close>

theorem done_without_both_messages_keeps_list:
  assumes "JSON_parse P dataStr = Some data"
    and "get_prop data (js ''userMessage'') = Some JUndefined \<or> get_prop data (js ''aiMessage'') = Some JUndefined"
  shows "finalize P optimistic_id data prev = Some prev
       \<and> dispatch P optimistic_id st (js ''done'') dataStr = Some (Inr st)"
proof -
  have r: "readable data"
    using assms(2) readable_get[of data "js ''userMessage''"] readable_get[of data "js ''aiMessage''"]
    by auto
  then obtain ai um where g: "get_prop data (js ''aiMessage'') = Some ai" "get_prop data (js ''userMessage'') = Some um"
    using readable_get[of data "js ''userMessage''"] readable_get[of data "js ''aiMessage''"]
    by auto
  with assms(2) have "\<not> truthy P ai \<or> \<not> truthy P um" by (auto simp: truthy_def)
  then have f: "finalize P optimistic_id data prev = Some prev" for prev
    using g by (auto simp: finalize_def split: option.splits)
  have "js ''done'' \<noteq> js ''token''" "js ''done'' \<noteq> js ''status''" "js ''done'' \<noteq> js ''error''"
    by (simp_all add: js_def)
  then show ?thesis using f assms(1) by (simp add: dispatch_def)
qed


theorem done_without_both_messages_keeps_list_witness:
  "JSON_parse demo_platform half_done_payload = Some (JObj [(js ''userMessage'', user_u1)]) \<and>
   (get_prop (JObj [(js ''userMessage'', user_u1)]) (js ''userMessage'') = Some JUndefined \<or>
    get_prop (JObj [(js ''userMessage'', user_u1)]) (js ''aiMessage'') = Some JUndefined) \<and>
   finalize demo_platform (js ''temp-7'') (JObj [(js ''userMessage'', user_u1)]) (Some demo_chat)
     = Some (Some demo_chat) \<and>
   dispatch demo_platform (js ''temp-7'') demo_page (js ''done'') half_done_payload
     = Some (Inr demo_page)"
proof -
  have h1: "JSON_parse demo_platform half_done_payload = Some (JObj [(js ''userMessage'', user_u1)])"
    by (simp add: demo_platform_def half_done_payload_def rate_limited_payload_def hi_payload_def
        js_def)
  have h2: "get_prop (JObj [(js ''userMessage'', user_u1)]) (js ''userMessage'') = Some JUndefined \<or>
            get_prop (JObj [(js ''userMessage'', user_u1)]) (js ''aiMessage'') = Some JUndefined"
    by (simp add: get_prop_def js_def)
  show ?thesis
    using h1 h2
      done_without_both_messages_keeps_list[where optimistic_id="js ''temp-7''"
        and prev="Some demo_chat" and st=demo_page, OF h1 h2]
    by blast
qed

section \<open>Stream Session\<close>

text \<open>
  C8. A send made while the conversation is \<open>null\<close> or the user identity is absent
  (\<open>null\<close>, \<open>undefined\<close> or the empty string) returns at once: the only change to
  the page is the error message \<open>Chat or user not found\<close>, and the list of effects is
  empty. So no request is issued, no optimistic message is appended and no streaming state
  is entered.
\<close>

theorem precondition_failure_makes_no_request:
  assumes "currentChatData st = None \<or> userId w = None \<or> userId w = Some []"
  shows "handleSendMessage P w content st =
           Some (st\<lparr>sendMessageError := Some (js ''Chat or user not found'')\<rparr>, [])"
  using assms by (auto simp: handleSendMessage_def split: option.splits)


theorem precondition_failure_makes_no_request_witness:
  "(currentChatData demo_page = None \<or> userId signed_out_world = None
      \<or> userId signed_out_world = Some []) \<and>
   handleSendMessage demo_platform signed_out_world (js ''Hello'') demo_page =
     Some (demo_page\<lparr>sendMessageError := Some (js ''Chat or user not found'')\<rparr>, [])"
proof -
  have h: "currentChatData demo_page = None \<or> userId signed_out_world = None
      \<or> userId signed_out_world = Some []"
    by (simp add: signed_out_world_def)
  show ?thesis
    using h precondition_failure_makes_no_request[where P=demo_platform
        and content="js ''Hello''", OF h]
    by blast
qed

lemma finalize_steady:
  assumes "readable data"
    and adm: "admits P Q"
    and "JSON_parse P s = Some data"
    and "\<forall>m\<in>set (messages c). Q m"
  shows "\<exists>c'. finalize P oid data (Some c) = Some (Some c') \<and> (\<forall>m\<in>set (messages c'). Q m)"
proof -
  obtain ai um where g: "get_prop data (js ''aiMessage'') = Some ai" "get_prop data (js ''userMessage'') = Some um"
    using assms(1) readable_get[of data "js ''userMessage''"] readable_get[of data "js ''aiMessage''"]
    by auto
  show ?thesis
  proof (cases "truthy P ai \<and> truthy P um")
    case True
    have "\<forall>m\<in>set (messages c). readable m" using assms(4) adm by (auto simp: admits_def)
    then have "finalize P oid data (Some c) =
       Some (Some (c\<lparr>messages := filter (\<lambda>m. differs_from_id oid m = Some True) (messages c) @ [um, ai]\<rparr>))"
      using g True by (intro finalize_filter) auto
    moreover have "Q um" "Q ai" using True g adm assms(3) unfolding admits_def by blast+
    ultimately show ?thesis using assms(4) by auto
  next
    case False
    then have "finalize P oid data (Some c) = Some (Some c)"
      using g by (auto simp: finalize_def)
    then show ?thesis using assms(4) by auto
  qed
qed

lemma process_block_steady:
  assumes "answers P"
    and adm: "admits P Q"
    and "steady Q (st, log)"
  shows "\<exists>st' log'. process_block P oid (Some (st, log)) b = Some (st', log') \<and> steady Q (st', log')"
proof -
  obtain et ds where p: "parse_block b = (et, ds)" by (cases "parse_block b")
  have "\<exists>st' log'. (case dispatch P oid st et ds of
                      None \<Rightarrow> None
                    | Some (Inl e) \<Rightarrow> Some (st, log @ [ConsoleWarn])
                    | Some (Inr st') \<Rightarrow> Some (st', log)) = Some (st', log') \<and> steady Q (st', log')"
  proof (cases "JSON_parse P ds")
    case None
    then show ?thesis using assms(3) by (simp add: dispatch_def steady_def)
  next
    case (Some data)
    have rd: "readable data" using Some assms(1) by (cases data) (auto simp: answers_def readable_def)
    consider (tok) "et = js ''token''"
      | (stat) "et \<noteq> js ''token''" "et = js ''status''"
      | (err) "et \<noteq> js ''token''" "et \<noteq> js ''status''" "et = js ''error''"
      | (fin) "et \<noteq> js ''token''" "et \<noteq> js ''status''" "et \<noteq> js ''error''" "et = js ''done''"
      | (oth) "et \<noteq> js ''token''" "et \<noteq> js ''status''" "et \<noteq> js ''error''" "et \<noteq> js ''done''"
      by blast
    then show ?thesis
    proof cases
      case tok
      obtain v where v: "get_prop data (js ''content'') = Some v"
        using rd readable_get[of data "js ''content''"] by auto
      have "\<exists>str. plus_str P (streamingMessage st) v = Some str"
        using assms(1) by (cases v) (auto simp: plus_str_def answers_def)
      then obtain str where "plus_str P (streamingMessage st) v = Some str" by blast
      then show ?thesis using tok Some v assms(3)
        by (simp add: dispatch_def append_token_def steady_def)
    next
      case stat
      obtain v where v: "get_prop data (js ''status'') = Some v"
        using rd readable_get[of data "js ''status''"] by auto
      then show ?thesis using stat Some assms(3)
        by (simp add: dispatch_def steady_def)
    next
      case err
      then have "\<exists>e. dispatch P oid st et ds = Some (Inl e)"
        using Some by (auto simp: dispatch_def split: option.splits)
      then show ?thesis using assms(3) by (auto simp: steady_def)
    next
      case fin
      obtain c where c: "currentChatData st = Some c" "\<forall>m\<in>set (messages c). Q m"
        using assms(3) by (auto simp: steady_def)
      obtain c' where "finalize P oid data (Some c) = Some (Some c')" "\<forall>m\<in>set (messages c'). Q m"
        using finalize_steady[where oid=oid, OF rd adm Some c(2)] by blast
      then show ?thesis using fin Some c assms(3)
        by (simp add: dispatch_def steady_def)
    next
      case oth
      then show ?thesis using Some assms(3) by (simp add: dispatch_def)
    qed
  qed
  then show ?thesis using p assms(3) by (auto simp: process_block_def)
qed

lemma foldl_steady:
  assumes "answers P"
    and adm: "admits P Q"
    and "steady Q (st, log)"
  shows "\<exists>st' log'. foldl (process_block P oid) (Some (st, log)) bs = Some (st', log') \<and> steady Q (st', log')"
  using assms(3)
proof (induction bs arbitrary: st log)
  case Nil
  then show ?case by simp
next
  case (Cons b bs)
  obtain st1 log1 where "process_block P oid (Some (st, log)) b = Some (st1, log1)" "steady Q (st1, log1)"
    using process_block_steady[where oid=oid and b=b, OF assms(1) adm Cons.prems] by blast
  then show ?case using Cons.IH[of st1 log1] by simp
qed

lemma read_loop_steady:
  assumes "answers P"
    and adm: "admits P Q"
    and "steady Q (st, log)"
  shows "\<exists>st' log' buffer. read_loop (process_block P oid) [] (Some (st, log)) cs = (Some (st', log'), buffer)
            \<and> steady Q (st', log')"
proof -
  have "split block_sep [] = [[]]" by (subst split.simps) (simp add: block_sep_def)
  then have "read_loop (process_block P oid) [] (Some (st, log)) cs =
     (foldl (process_block P oid) (Some (st, log)) (butlast (split block_sep (concat cs))),
      last (split block_sep (concat cs)))"
    by (simp add: read_loop_eq)
  then show ?thesis
    using foldl_steady[where oid=oid and bs="butlast (split block_sep (concat cs))", OF assms(1) adm assms(3)]
    by auto
qed

lemma admits_readable: "admits P readable"
  by (auto simp: admits_def dest: truthy_readable)

lemma dispatch_quiet:
  "dispatch P oid st et ds = Some (Inr st') \<Longrightarrow> sendMessageError st' = sendMessageError st"
  by (auto simp: dispatch_def split: option.splits if_splits)

lemma process_block_quiet:
  assumes "process_block P oid (Some (st, log)) b = Some (st', log')"
  shows "sendMessageError st' = sendMessageError st
       \<and> (\<forall>msg. ToastError msg \<in> set log' \<longrightarrow> ToastError msg \<in> set log)"
proof -
  obtain et ds where p: "parse_block b = (et, ds)" by (cases "parse_block b")
  show ?thesis
  proof (cases "trim b = [] \<or> et = [] \<or> ds = []")
    case True
    then have "process_block P oid (Some (st, log)) b = Some (st, log)"
      by (auto simp: process_block_def p)
    then show ?thesis using assms by simp
  next
    case False
    show ?thesis
    proof (cases "dispatch P oid st et ds")
      case None
      then have "process_block P oid (Some (st, log)) b = None"
        using False by (simp add: process_block_def p)
      then show ?thesis using assms by simp
    next
      case (Some r)
      show ?thesis
      proof (cases r)
        case (Inl e)
        then have "process_block P oid (Some (st, log)) b = Some (st, log @ [ConsoleWarn])"
          using False Some by (simp add: process_block_def p)
        then show ?thesis using assms by auto
      next
        case (Inr st1)
        then have "process_block P oid (Some (st, log)) b = Some (st1, log)"
          using False Some by (simp add: process_block_def p)
        then show ?thesis using assms Some Inr dispatch_quiet[of P oid st et ds st1] by auto
      qed
    qed
  qed
qed

lemma foldl_process_None: "foldl (process_block P oid) None bs = None"
  by (induction bs) (simp_all add: process_block_def)

lemma foldl_quiet:
  "foldl (process_block P oid) (Some (st, log)) bs = Some (st', log') \<Longrightarrow>
   sendMessageError st' = sendMessageError st
     \<and> (\<forall>msg. ToastError msg \<in> set log' \<longrightarrow> ToastError msg \<in> set log)"
proof (induction bs arbitrary: st log)
  case Nil
  then show ?case by simp
next
  case (Cons b bs)
  show ?case
  proof (cases "process_block P oid (Some (st, log)) b")
    case None
    then show ?thesis using Cons.prems by (simp add: foldl_process_None)
  next
    case (Some r)
    obtain st1 log1 where r: "r = (st1, log1)" by (cases r)
    have "sendMessageError st1 = sendMessageError st
        \<and> (\<forall>msg. ToastError msg \<in> set log1 \<longrightarrow> ToastError msg \<in> set log)"
      using Some r process_block_quiet by blast
    moreover have "sendMessageError st' = sendMessageError st1
        \<and> (\<forall>msg. ToastError msg \<in> set log' \<longrightarrow> ToastError msg \<in> set log1)"
      using Cons.IH[of st1 log1] Cons.prems Some r by simp
    ultimately show ?thesis by simp
  qed
qed

lemma demo_answers: "answers demo_platform"
  by (auto simp: answers_def demo_platform_def split: jsval.splits)

text \<open>
  C6. Let a send pass the precondition, receive a successful response with a body, and let
  a \<open>read\<close> reject with an \<open>AbortError\<close> after any number of chunks. Whenever the
  call returns, no error message is set and no toast is shown, and the session is released:
  \<open>isMessageSending\<close> and \<open>isStreaming\<close> are false, the streaming text and the
  status are empty, and the cancellation handle is cleared. The call does return when the
  engine answers and the conversation holds readable values, that is, when no function
  given to a setter throws while React renders.
\<close>

theorem cancel_mid_stream_is_silent:
  assumes "currentChatData st = Some c" "userId w = Some uid" "uid \<noteq> []"
    and "getToken w = Inr token" "fetch w = Inr resp" "resp_ok resp" "resp_body resp = Some stream"
    and "stream_end stream = Some e" "is_abort e"
  shows "(\<forall>st' log. handleSendMessage P w content st = Some (st', log) \<longrightarrow>
             sendMessageError st' = None \<and> (\<forall>msg. ToastError msg \<notin> set log)
           \<and> \<not> isMessageSending st' \<and> \<not> isStreaming st' \<and> streamingMessage st' = []
           \<and> agentStatus st' = JStr [] \<and> abortControllerRef st' = None)
       \<and> (answers P \<and> (\<forall>m\<in>set (messages c). readable m) \<longrightarrow>
             (\<exists>st' log. handleSendMessage P w content st = Some (st', log)))"
proof -
  let ?m = "optimisticUserMessage w c uid content"
  let ?oid = "js ''temp-'' @ show_nat (date_now w)"
  let ?st2 = "st\<lparr>sendMessageError := None, isMessageSending := True, isStreaming := True,
                streamingMessage := [], agentStatus := JStr [],
                abortControllerRef := Some AbortController,
                currentChatData := Some (c\<lparr>messages := messages c @ [?m]\<rparr>)\<rparr>"
  let ?log = "[Fetch (request_url w c) (authorization token) content]"
  let ?blocks = "butlast (split block_sep (concat (stream_chunks stream)))"
  obtain r buffer where
    loop: "read_loop (process_block P ?oid) [] (Some (?st2, ?log)) (stream_chunks stream) = (r, buffer)"
    by (cases "read_loop (process_block P ?oid) [] (Some (?st2, ?log)) (stream_chunks stream)")
  have r: "r = foldl (process_block P ?oid) (Some (?st2, ?log)) ?blocks"
    using loop by (simp add: read_loop_eq split_empty)
  have tb: "try_block P w c uid content st =
      (case r of None \<Rightarrow> None | Some (st3, log3) \<Rightarrow> Some (st3, log3, Some e))"
    using assms(1,4-8) loop
    by (cases r) (auto simp: try_block_def Let_def append_optimistic_def)
  have h: "handleSendMessage P w content st =
      (case r of None \<Rightarrow> None | Some (st3, log3) \<Rightarrow> Some (finally_block st3, log3))"
    using assms(1-3,9) tb
    by (cases r) (auto simp: handleSendMessage_def catch_block_def)
  have safe: "\<forall>st' log. handleSendMessage P w content st = Some (st', log) \<longrightarrow>
             sendMessageError st' = None \<and> (\<forall>msg. ToastError msg \<notin> set log)
           \<and> \<not> isMessageSending st' \<and> \<not> isStreaming st' \<and> streamingMessage st' = []
           \<and> agentStatus st' = JStr [] \<and> abortControllerRef st' = None"
  proof (intro allI impI)
    fix st' log
    assume a: "handleSendMessage P w content st = Some (st', log)"
    then obtain st3 where st3: "r = Some (st3, log)" "st' = finally_block st3"
      using h by (auto split: option.splits prod.splits)
    have "sendMessageError st3 = sendMessageError ?st2
        \<and> (\<forall>msg. ToastError msg \<in> set log \<longrightarrow> ToastError msg \<in> set ?log)"
      using foldl_quiet[of P ?oid ?st2 ?log ?blocks st3 log] r st3(1) by simp
    then show "sendMessageError st' = None \<and> (\<forall>msg. ToastError msg \<notin> set log)
           \<and> \<not> isMessageSending st' \<and> \<not> isStreaming st' \<and> streamingMessage st' = []
           \<and> agentStatus st' = JStr [] \<and> abortControllerRef st' = None"
      using st3(2) by (auto simp: finally_block_def)
  qed
  have returns: "answers P \<and> (\<forall>m\<in>set (messages c). readable m) \<longrightarrow>
             (\<exists>st' log. handleSendMessage P w content st = Some (st', log))"
  proof
    assume a: "answers P \<and> (\<forall>m\<in>set (messages c). readable m)"
    then have "steady readable (?st2, ?log)"
      by (simp add: steady_def string_id_readable optimistic_string_id)
    then obtain st3 log3 where "r = Some (st3, log3)"
      using foldl_steady[where oid="?oid" and bs="?blocks", OF _ admits_readable] a r by blast
    then show "\<exists>st' log. handleSendMessage P w content st = Some (st', log)"
      using h by simp
  qed
  show ?thesis using safe returns by blast
qed

lemma cancelled_world_facts:
  "userId cancelled_world = Some (js ''user_1'')"
  "getToken cancelled_world = Inr (Some (js ''tok''))"
  "fetch cancelled_world =
     Inr \<lparr>resp_ok = True, resp_status = 200, resp_body = Some cancelled_stream\<rparr>"
  "stream_end cancelled_stream
     = Some (ErrorObject (js ''AbortError'') (js ''The user aborted a request.''))"
  by (simp_all add: cancelled_world_def world_with_def cancelled_stream_def)

theorem cancel_mid_stream_is_silent_witness:
  "currentChatData demo_page = Some demo_chat \<and>
   userId cancelled_world = Some (js ''user_1'') \<and> js ''user_1'' \<noteq> [] \<and>
   getToken cancelled_world = Inr (Some (js ''tok'')) \<and>
   fetch cancelled_world =
     Inr \<lparr>resp_ok = True, resp_status = 200, resp_body = Some cancelled_stream\<rparr> \<and>
   stream_end cancelled_stream
     = Some (ErrorObject (js ''AbortError'') (js ''The user aborted a request.'')) \<and>
   is_abort (ErrorObject (js ''AbortError'') (js ''The user aborted a request.'')) \<and>
   answers demo_platform \<and>
   messages demo_chat
     = [JObj [(js ''id'', JStr (js ''m0''))], JObj [(js ''id'', JStr (js ''temp-1''))]] \<and>
   readable (JObj [(js ''id'', JStr (js ''m0''))]) \<and>
   readable (JObj [(js ''id'', JStr (js ''temp-1''))]) \<and>
   (\<exists>st' log. handleSendMessage demo_platform cancelled_world (js ''Hello'') demo_page
                 = Some (st', log)
       \<and> sendMessageError st' = None \<and> (\<forall>msg. ToastError msg \<notin> set log)
       \<and> \<not> isMessageSending st' \<and> \<not> isStreaming st' \<and> streamingMessage st' = []
       \<and> agentStatus st' = JStr [] \<and> abortControllerRef st' = None)"
proof -
  have h1: "currentChatData demo_page = Some demo_chat" by (simp add: demo_page_def)
  have h3: "js ''user_1'' \<noteq> []" by (simp add: js_def)
  have h6: "resp_ok \<lparr>resp_ok = True, resp_status = 200, resp_body = Some cancelled_stream\<rparr>"
    by simp
  have h7: "resp_body \<lparr>resp_ok = True, resp_status = 200, resp_body = Some cancelled_stream\<rparr>
              = Some cancelled_stream"
    by simp
  have h9: "is_abort (ErrorObject (js ''AbortError'') (js ''The user aborted a request.''))"
    by (simp add: is_abort_def)
  show ?thesis
    using h1 h3 h9 cancelled_world_facts demo_answers demo_chat_readable
      demo_chat_messages demo_messages_readable
      cancel_mid_stream_is_silent[where P=demo_platform and content="js ''Hello''",
        OF h1 cancelled_world_facts(1) h3 cancelled_world_facts(2,3) h6 h7
           cancelled_world_facts(4) h9]
    by blast
qed

lemma filter_throwing_defined:
  "filter_throwing f xs = Some ys \<Longrightarrow> \<forall>x\<in>set xs. f x \<noteq> None"
  by (induction xs arbitrary: ys) (auto split: option.splits)

lemma not_temp_string_id: "not_temp m \<noteq> None \<Longrightarrow> has_string_id m"
  by (auto simp: not_temp_def has_string_id_def split: option.splits jsval.splits)

lemma rollback_returns:
  assumes "rollback (Some c1) = Some r"
  shows "r = Some (c1\<lparr>messages := filter (\<lambda>m. \<not> has_temp_id m) (messages c1)\<rparr>)"
proof -
  obtain kept where "filter_throwing not_temp (messages c1) = Some kept"
    using assms by (auto simp: rollback_def split: option.splits)
  then have "\<forall>m\<in>set (messages c1). not_temp m \<noteq> None" by (rule filter_throwing_defined)
  then have "\<forall>m\<in>set (messages c1). has_string_id m" by (blast intro: not_temp_string_id)
  then show ?thesis using assms rollback_filter[of c1] by simp
qed

lemma finalize_keeps_chat: "finalize P oid data (Some c) = Some r \<Longrightarrow> r \<noteq> None"
  by (auto simp: finalize_def split: option.splits if_splits)

lemma dispatch_keeps_chat:
  "dispatch P oid st et ds = Some (Inr st') \<Longrightarrow> currentChatData st \<noteq> None \<Longrightarrow>
   currentChatData st' \<noteq> None"
  by (auto simp: dispatch_def split: option.splits if_splits dest: finalize_keeps_chat)

lemma process_block_keeps_chat:
  assumes "process_block P oid (Some (st, log)) b = Some (st', log')"
    and "currentChatData st \<noteq> None"
  shows "currentChatData st' \<noteq> None"
proof -
  obtain et ds where p: "parse_block b = (et, ds)" by (cases "parse_block b")
  show ?thesis
  proof (cases "trim b = [] \<or> et = [] \<or> ds = []")
    case True
    then have "process_block P oid (Some (st, log)) b = Some (st, log)"
      by (auto simp: process_block_def p)
    then show ?thesis using assms by simp
  next
    case False
    show ?thesis
    proof (cases "dispatch P oid st et ds")
      case None
      then have "process_block P oid (Some (st, log)) b = None"
        using False by (simp add: process_block_def p)
      then show ?thesis using assms by simp
    next
      case (Some r)
      show ?thesis
      proof (cases r)
        case (Inl e)
        then have "process_block P oid (Some (st, log)) b = Some (st, log @ [ConsoleWarn])"
          using False Some by (simp add: process_block_def p)
        then show ?thesis using assms by auto
      next
        case (Inr st1)
        then have "process_block P oid (Some (st, log)) b = Some (st1, log)"
          using False Some by (simp add: process_block_def p)
        then show ?thesis
          using assms Some Inr dispatch_keeps_chat[of P oid st et ds st1] by auto
      qed
    qed
  qed
qed

lemma foldl_keeps_chat:
  "foldl (process_block P oid) (Some (st, log)) bs = Some (st', log') \<Longrightarrow>
   currentChatData st \<noteq> None \<Longrightarrow> currentChatData st' \<noteq> None"
proof (induction bs arbitrary: st log)
  case Nil
  then show ?case by simp
next
  case (Cons b bs)
  show ?case
  proof (cases "process_block P oid (Some (st, log)) b")
    case None
    then show ?thesis using Cons.prems by (simp add: foldl_process_None)
  next
    case (Some r)
    obtain st1 log1 where r: "r = (st1, log1)" by (cases r)
    have "currentChatData st1 \<noteq> None"
      using Some r Cons.prems(2) process_block_keeps_chat by blast
    then show ?thesis using Cons.IH[of st1 log1] Cons.prems(1) Some r by simp
  qed
qed

text \<open>
  How the outer \<open>try\<close> ends on a failure path: it throws an error that is not a
  cancellation, with the conversation still there; before any chunk is read the
  conversation is the old one with the optimistic message at its end.
\<close>

lemma try_block_throws:
  assumes "currentChatData st = Some c" and "send_fails w"
    and "try_block P w c uid content st = Some (st1, log1, x)"
  shows "\<exists>e c1. x = Some e \<and> \<not> is_abort e \<and> currentChatData st1 = Some c1
           \<and> (fails_before_reading w \<longrightarrow>
                 messages c1 = messages c @ [optimisticUserMessage w c uid content])"
proof -
  let ?m = "optimisticUserMessage w c uid content"
  let ?oid = "js ''temp-'' @ show_nat (date_now w)"
  let ?st2 = "st\<lparr>sendMessageError := None, isMessageSending := True, isStreaming := True,
                streamingMessage := [], agentStatus := JStr [],
                abortControllerRef := Some AbortController,
                currentChatData := Some (c\<lparr>messages := messages c @ [?m]\<rparr>)\<rparr>"
  have ne: "\<not> is_abort (ErrorObject (js ''Error'') msg)" for msg
    by (simp add: is_abort_def js_def)
  show ?thesis
  proof (cases "getToken w")
    case (Inl e)
    then show ?thesis using assms
      by (auto simp: try_block_def Let_def append_optimistic_def send_fails_def)
  next
    case token: (Inr token)
    let ?log = "[Fetch (request_url w c) (authorization token) content]"
    show ?thesis
    proof (cases "fetch w")
      case (Inl e)
      then show ?thesis using assms token
        by (auto simp: try_block_def Let_def append_optimistic_def send_fails_def)
    next
      case resp: (Inr resp)
      show ?thesis
      proof (cases "resp_ok resp")
        case False
        then show ?thesis using assms(1,3) token resp ne
          by (auto simp: try_block_def Let_def append_optimistic_def)
      next
        case ok: True
        show ?thesis
        proof (cases "resp_body resp")
          case None
          then show ?thesis using assms(1,3) token resp ok ne
            by (auto simp: try_block_def Let_def append_optimistic_def)
        next
          case (Some stream)
          then obtain e where e: "stream_end stream = Some e" "\<not> is_abort e"
            using assms(2) token resp ok by (auto simp: send_fails_def split: option.splits)
          let ?blocks = "butlast (split block_sep (concat (stream_chunks stream)))"
          obtain r buffer where loop:
            "read_loop (process_block P ?oid) [] (Some (?st2, ?log)) (stream_chunks stream)
               = (r, buffer)"
            by (cases "read_loop (process_block P ?oid) [] (Some (?st2, ?log))
                         (stream_chunks stream)")
          have r: "r = foldl (process_block P ?oid) (Some (?st2, ?log)) ?blocks"
            using loop by (simp add: read_loop_eq split_empty)
          have tb: "try_block P w c uid content st =
              (case r of None \<Rightarrow> None | Some (st3, log3) \<Rightarrow> Some (st3, log3, Some e))"
            using assms(1) token resp ok Some e(1) loop
            by (cases r) (auto simp: try_block_def Let_def append_optimistic_def)
          then have x: "r = Some (st1, log1)" "x = Some e"
            using assms(3) by (auto split: option.splits prod.splits)
          have "currentChatData st1 \<noteq> None"
            using foldl_keeps_chat[of P ?oid ?st2 ?log ?blocks st1 log1] r x(1) by simp
          moreover have "\<not> fails_before_reading w"
            using token resp ok Some by (simp add: fails_before_reading_def)
          ultimately show ?thesis using x(2) e(2) by auto
        qed
      qed
    qed
  qed
qed

lemma try_block_early:
  assumes "currentChatData st = Some c" and "fails_before_reading w"
  shows "\<exists>st1 log1 x. try_block P w c uid content st = Some (st1, log1, x)"
  using assms
  by (auto simp: try_block_def Let_def fails_before_reading_def split: sum.splits)

text \<open>
  C10. Let a send pass the precondition and fail on a path that is not a cancellation (a
  status that is not a success, a response without a body, a rejected \<open>getToken\<close>,
  \<open>fetch\<close> or \<open>read\<close>). Whenever the call returns, the conversation it leaves is
  the conversation as it stood when the error was thrown without the messages whose id
  starts with \<open>temp-\<close>, all of them; when the failure comes before any chunk is read,
  that is the list from before the send without its temporary messages: the optimistic
  message of this send is gone, and so is every older message with such an id. On the
  paths that fail before any chunk is read, the call does return when every message of
  the conversation has a string id, as the interface \<open>Message\<close> declares.
\<close>

theorem failed_send_removes_every_temp_message:
  assumes "currentChatData st = Some c" "userId w = Some uid" "uid \<noteq> []"
    and "send_fails w"
  shows "(\<forall>st' log. handleSendMessage P w content st = Some (st', log) \<longrightarrow>
            (\<exists>st1 log1 e c1 c'.
                 try_block P w c uid content st = Some (st1, log1, Some e)
               \<and> currentChatData st1 = Some c1 \<and> currentChatData st' = Some c'
               \<and> messages c' = filter (\<lambda>m. \<not> has_temp_id m) (messages c1)
               \<and> (\<forall>m\<in>set (messages c'). \<not> has_temp_id m)
               \<and> (fails_before_reading w \<longrightarrow>
                     messages c' = filter (\<lambda>m. \<not> has_temp_id m) (messages c))))
       \<and> (fails_before_reading w \<and> (\<forall>m\<in>set (messages c). has_string_id m) \<longrightarrow>
            (\<exists>st' log. handleSendMessage P w content st = Some (st', log)))"
proof -
  let ?m = "optimisticUserMessage w c uid content"
  have removes: "\<forall>st' log. handleSendMessage P w content st = Some (st', log) \<longrightarrow>
            (\<exists>st1 log1 e c1 c'.
                 try_block P w c uid content st = Some (st1, log1, Some e)
               \<and> currentChatData st1 = Some c1 \<and> currentChatData st' = Some c'
               \<and> messages c' = filter (\<lambda>m. \<not> has_temp_id m) (messages c1)
               \<and> (\<forall>m\<in>set (messages c'). \<not> has_temp_id m)
               \<and> (fails_before_reading w \<longrightarrow>
                     messages c' = filter (\<lambda>m. \<not> has_temp_id m) (messages c)))"
  proof (intro allI impI)
    fix st' log
    assume a: "handleSendMessage P w content st = Some (st', log)"
    then obtain st1 log1 x where tb: "try_block P w c uid content st = Some (st1, log1, x)"
      using assms(1-3) by (auto simp: handleSendMessage_def split: option.splits)
    then obtain e c1 where
      e: "x = Some e" "\<not> is_abort e" "currentChatData st1 = Some c1"
         "fails_before_reading w \<longrightarrow> messages c1 = messages c @ [?m]"
      using try_block_throws[OF assms(1,4)] by blast
    obtain st2 log2 where cb: "catch_block e (st1, log1) = Some (st2, log2)"
      and st': "st' = finally_block st2"
      using a assms(1-3) tb e(1) by (auto simp: handleSendMessage_def split: option.splits)
    obtain r where r: "rollback (Some c1) = Some r" "currentChatData st2 = r"
      using cb e(2,3) by (auto simp: catch_block_def Let_def split: option.splits)
    let ?c' = "c1\<lparr>messages := filter (\<lambda>m. \<not> has_temp_id m) (messages c1)\<rparr>"
    have "r = Some ?c'" using r(1) by (rule rollback_returns)
    then have c': "currentChatData st' = Some ?c'"
      using r(2) st' by (simp add: finally_block_def)
    have early: "fails_before_reading w \<longrightarrow>
        messages ?c' = filter (\<lambda>m. \<not> has_temp_id m) (messages c)"
      using e(4) by (auto simp: optimistic_temp)
    show "\<exists>st1 log1 e c1 c'.
                 try_block P w c uid content st = Some (st1, log1, Some e)
               \<and> currentChatData st1 = Some c1 \<and> currentChatData st' = Some c'
               \<and> messages c' = filter (\<lambda>m. \<not> has_temp_id m) (messages c1)
               \<and> (\<forall>m\<in>set (messages c'). \<not> has_temp_id m)
               \<and> (fails_before_reading w \<longrightarrow>
                     messages c' = filter (\<lambda>m. \<not> has_temp_id m) (messages c))"
      apply (rule exI[of _ st1], rule exI[of _ log1], rule exI[of _ e], rule exI[of _ c1],
             rule exI[of _ ?c'])
      using tb e(1,3) c' early by simp
  qed
  have returns: "fails_before_reading w \<and> (\<forall>m\<in>set (messages c). has_string_id m) \<longrightarrow>
            (\<exists>st' log. handleSendMessage P w content st = Some (st', log))"
  proof
    assume b: "fails_before_reading w \<and> (\<forall>m\<in>set (messages c). has_string_id m)"
    then obtain st1 log1 x where tb: "try_block P w c uid content st = Some (st1, log1, x)"
      using try_block_early[OF assms(1)] by blast
    then obtain e c1 where
      e: "x = Some e" "\<not> is_abort e" "currentChatData st1 = Some c1"
         "messages c1 = messages c @ [?m]"
      using try_block_throws[OF assms(1,4)] b by blast
    have "\<forall>m\<in>set (messages c1). has_string_id m"
      using b e(4) by (simp add: optimistic_string_id)
    then have "rollback (Some c1) \<noteq> None" using rollback_filter[of c1] by simp
    then have "catch_block e (st1, log1) \<noteq> None"
      using e(2,3) by (auto simp: catch_block_def Let_def split: option.splits)
    then show "\<exists>st' log. handleSendMessage P w content st = Some (st', log)"
      using assms(1-3) tb e(1) by (auto simp: handleSendMessage_def split: option.splits)
  qed
  show ?thesis using removes returns by blast
qed

lemma unavailable_fails: "send_fails unavailable_world"
  by (simp add: send_fails_def unavailable_world_def world_with_def)

lemma dropped_fails: "send_fails dropped_world"
  by (simp add: send_fails_def dropped_world_def world_with_def dropped_stream_def
      is_abort_def js_def)

lemma split_token_chunk: "split block_sep (token_block @ block_sep) = [token_block, []]"
  by (simp add: js_def block_sep_def newline_def hi_payload_def token_block_def split.simps)

lemma parse_token_block: "parse_block token_block = (js ''token'', hi_payload)"
  by (simp add: parse_block_def js_def newline_def hi_payload_def token_block_def
      split.simps scan_line_def startsWith_def slice_from_def trim_def is_white_def)

lemma process_token_block:
  "process_block demo_platform oid (Some (st, log)) token_block
     = Some (st\<lparr>streamingMessage := streamingMessage st @ js ''Hi''\<rparr>, log)"
proof -
  have t: "trim token_block \<noteq> []"
    by (simp add: js_def newline_def hi_payload_def token_block_def trim_def is_white_def)
  have p: "JSON_parse demo_platform hi_payload = Some (JObj [(js ''content'', JStr (js ''Hi''))])"
    by (simp add: demo_platform_def hi_payload_def rate_limited_payload_def js_def)
  have d: "dispatch demo_platform oid st (js ''token'') hi_payload
             = Some (Inr (st\<lparr>streamingMessage := streamingMessage st @ js ''Hi''\<rparr>))"
    by (simp add: dispatch_def p append_token_def get_prop_def plus_str_def)
  have e: "js ''token'' \<noteq> []" "hi_payload \<noteq> []"
    by (simp_all add: js_def hi_payload_def)
  show ?thesis using t e by (simp add: process_block_def parse_token_block d)
qed

lemma dropped_send:
  "handleSendMessage demo_platform dropped_world (js ''Hello'') demo_page =
     Some (demo_page\<lparr>sendMessageError := Some (js ''network error''),
                     currentChatData :=
                       Some (demo_chat\<lparr>messages := [JObj [(js ''id'', JStr (js ''m0''))]]\<rparr>)\<rparr>,
           [Fetch (js ''http://localhost:8000/api/chat/p1/chats/c1/messages/stream'')
                  (js ''Bearer tok'') (js ''Hello''),
            ToastError (js ''network error'')])"
  by (simp add: handleSendMessage_def dropped_world_def world_with_def demo_page_def
      dropped_stream_def try_block_def decode_step_def pop_def split_token_chunk
      process_token_block request_url_def authorization_def
      catch_block_def Let_def is_abort_def rollback_def not_temp_def get_prop_def startsWith_def
      optimisticUserMessage_def finally_block_def append_optimistic_def demo_chat_def js_def)

theorem failed_send_removes_every_temp_message_witness:
  "currentChatData demo_page = Some demo_chat \<and>
   messages demo_chat
     = [JObj [(js ''id'', JStr (js ''m0''))], JObj [(js ''id'', JStr (js ''temp-1''))]] \<and>
   has_string_id (JObj [(js ''id'', JStr (js ''m0''))]) \<and>
   has_string_id (JObj [(js ''id'', JStr (js ''temp-1''))]) \<and>
   userId unavailable_world = Some (js ''user_1'') \<and> js ''user_1'' \<noteq> [] \<and>
   send_fails unavailable_world \<and> fails_before_reading unavailable_world \<and>
   (\<exists>st' log c'. handleSendMessage demo_platform unavailable_world (js ''Hello'') demo_page
                    = Some (st', log)
       \<and> currentChatData st' = Some c'
       \<and> messages c' = [JObj [(js ''id'', JStr (js ''m0''))]]) \<and>
   userId dropped_world = Some (js ''user_1'') \<and> send_fails dropped_world \<and>
   (\<exists>st' log c'. handleSendMessage demo_platform dropped_world (js ''Hello'') demo_page
                    = Some (st', log)
       \<and> currentChatData st' = Some c'
       \<and> messages c' = [JObj [(js ''id'', JStr (js ''m0''))]]
       \<and> (\<forall>m\<in>set (messages c'). \<not> has_temp_id m))"
proof -
  have h1: "currentChatData demo_page = Some demo_chat" by (simp add: demo_page_def)
  have h2: "userId unavailable_world = Some (js ''user_1'')"
    by (simp add: unavailable_world_def world_with_def)
  have h2': "userId dropped_world = Some (js ''user_1'')"
    by (simp add: dropped_world_def world_with_def)
  have h3: "js ''user_1'' \<noteq> []" by (simp add: js_def)
  have early: "fails_before_reading unavailable_world"
    by (simp add: fails_before_reading_def unavailable_world_def world_with_def)
  have kept: "filter (\<lambda>m. \<not> has_temp_id m) (messages demo_chat)
                = [JObj [(js ''id'', JStr (js ''m0''))]]"
    by (simp add: demo_chat_def has_temp_id_def get_prop_def startsWith_def js_def)
  note u = failed_send_removes_every_temp_message[where P=demo_platform
      and content="js ''Hello''", OF h1 h2 h3 unavailable_fails]
  note d = failed_send_removes_every_temp_message[where P=demo_platform
      and content="js ''Hello''", OF h1 h2' h3 dropped_fails]
  obtain st' log where ret:
    "handleSendMessage demo_platform unavailable_world (js ''Hello'') demo_page = Some (st', log)"
    using u early demo_chat_string_ids by blast
  then obtain c' where c': "currentChatData st' = Some c'"
    "messages c' = filter (\<lambda>m. \<not> has_temp_id m) (messages demo_chat)"
    using u early by blast
  have first: "\<exists>st' log c'.
      handleSendMessage demo_platform unavailable_world (js ''Hello'') demo_page = Some (st', log)
       \<and> currentChatData st' = Some c'
       \<and> messages c' = [JObj [(js ''id'', JStr (js ''m0''))]]"
    using ret c' kept by auto
  obtain c2 where c2:
    "currentChatData (demo_page\<lparr>sendMessageError := Some (js ''network error''),
                     currentChatData :=
                       Some (demo_chat\<lparr>messages := [JObj [(js ''id'', JStr (js ''m0''))]]\<rparr>)\<rparr>)
       = Some c2"
    "\<forall>m\<in>set (messages c2). \<not> has_temp_id m"
    using d dropped_send by blast
  then have "messages c2 = [JObj [(js ''id'', JStr (js ''m0''))]]" by auto
  then have second: "\<exists>st' log c'.
      handleSendMessage demo_platform dropped_world (js ''Hello'') demo_page = Some (st', log)
       \<and> currentChatData st' = Some c'
       \<and> messages c' = [JObj [(js ''id'', JStr (js ''m0''))]]
       \<and> (\<forall>m\<in>set (messages c'). \<not> has_temp_id m)"
    using dropped_send c2 by blast
  show ?thesis
    using h1 demo_chat_messages demo_messages_string_ids h2 h2' h3 unavailable_fails
      dropped_fails early first second
    by blast
qed

text \<open>
  C1 says that an \<open>error\<close> event before \<open>done\<close> ends the loop, removes the
  optimistic message and surfaces the message it carries. The \<open>error\<close> branch does
  throw an \<open>Error\<close> with that message, but the \<open>throw\<close> stands inside the inner
  \<open>try\<close>, whose \<open>catch\<close> is the one that logs payloads that fail to parse: the
  error is caught there, logged as a warning, and the loop goes on. For the stream that
  yields \<open>error: {"message":"rate limited"}\<close> and then ends, the call returns with no
  error message set, the optimistic message still at the end of the conversation, and no
  toast among the effects.
\<close>

lemma split_rate_limited: "split block_sep (rate_limited_block @ block_sep) = [rate_limited_block, []]"
  by (simp add: js_def block_sep_def newline_def rate_limited_payload_def rate_limited_block_def
      split.simps)

lemma parse_rate_limited: "parse_block rate_limited_block = (js ''error'', rate_limited_payload)"
  by (simp add: parse_block_def js_def newline_def rate_limited_payload_def rate_limited_block_def
      split.simps scan_line_def startsWith_def slice_from_def trim_def is_white_def)

lemma process_rate_limited:
  "process_block demo_platform oid (Some (st, log)) rate_limited_block
     = Some (st, log @ [ConsoleWarn])"
proof -
  have t: "trim rate_limited_block \<noteq> []"
    by (simp add: js_def newline_def rate_limited_payload_def rate_limited_block_def trim_def
        is_white_def)
  have d: "dispatch demo_platform oid st (js ''error'') rate_limited_payload
             = Some (Inl (ThrownError (js ''rate limited'')))"
    by (simp add: dispatch_def demo_platform_def get_prop_def truthy_def plus_str_def js_def)
  have e: "js ''error'' \<noteq> []" "rate_limited_payload \<noteq> []"
    by (simp_all add: js_def rate_limited_payload_def)
  show ?thesis using t e by (simp add: process_block_def parse_rate_limited d)
qed

theorem error_event_is_swallowed:
  "handleSendMessage demo_platform rate_limited_world (js ''Hello'') demo_page =
     Some (demo_page\<lparr>currentChatData :=
                Some (demo_chat\<lparr>messages := messages demo_chat @
                   [optimisticUserMessage rate_limited_world demo_chat (js ''user_1'') (js ''Hello'')]\<rparr>)\<rparr>,
           [Fetch (js ''http://localhost:8000/api/chat/p1/chats/c1/messages/stream'')
                  (js ''Bearer tok'') (js ''Hello''),
            ConsoleWarn]) \<and>
   sendMessageError demo_page = None"
  by (simp add: handleSendMessage_def rate_limited_world_def world_with_def demo_page_def
      rate_limited_stream_def try_block_def decode_step_def pop_def split_rate_limited
      process_rate_limited request_url_def authorization_def finally_block_def
      append_optimistic_def demo_chat_def js_def)

end
